theory Spec2Isabelle
  imports Main "HOL-Library.AList" "HOL-Library.Sublist"
begin

section \<open>Strings and paths\<close>

text \<open>
  JavaScript strings are modelled as \<open>string\<close>: lists of characters with the codes 0 to 255.
  \<open>startsWith\<close> and \<open>str_includes\<close> are \<^verbatim>\<open>String.prototype.startsWith\<close> and
  \<^verbatim>\<open>String.prototype.includes\<close>.
\<close>

definition startsWith :: "string \<Rightarrow> string \<Rightarrow> bool" where
  "startsWith s p = (take (length p) s = p)"

fun str_includes :: "string \<Rightarrow> string \<Rightarrow> bool" where
  "str_includes [] sub = (sub = [])"
| "str_includes (c # cs) sub = (startsWith (c # cs) sub \<or> str_includes cs sub)"

text \<open>
  A path is the list of its segments below the root: the absolute, normalised form that
  \<^verbatim>\<open>path.join\<close> and \<^verbatim>\<open>path.resolve\<close> produce on POSIX. \<open>path_join p s\<close> is
  \<^verbatim>\<open>path.join(p, s)\<close> for a string \<open>s\<close>: the string is split at \<open>/\<close>, empty segments and
  \<open>.\<close> are dropped and \<open>..\<close> climbs one level (and stays at the root).
\<close>

type_synonym path = "string list"

fun split_on :: "char \<Rightarrow> string \<Rightarrow> string list" where
  "split_on d [] = [[]]"
| "split_on d (c # cs) =
     (if c = d then [] # split_on d cs
      else (case split_on d cs of [] \<Rightarrow> [[c]] | s # ss \<Rightarrow> (c # s) # ss))"

definition enter :: "path \<Rightarrow> string \<Rightarrow> path" where
  "enter p seg =
     (if seg = [] \<or> seg = ''.'' then p
      else if seg = ''..'' then butlast p
      else p @ [seg])"

definition path_join :: "path \<Rightarrow> string \<Rightarrow> path" where
  "path_join p s = foldl enter p (split_on CHR ''/'' s)"

definition path_dirname :: "path \<Rightarrow> path" where
  "path_dirname p = butlast p"

definition show_path :: "path \<Rightarrow> string" where
  "show_path p = (if p = [] then ''/'' else concat (map (\<lambda>s. CHR ''/'' # s) p))"

text \<open>A name that is one path segment: what a directory entry can be called.\<close>

definition plain_name :: "string \<Rightarrow> bool" where
  "plain_name s = (s \<noteq> [] \<and> s \<noteq> ''.'' \<and> s \<noteq> ''..'' \<and> CHR ''/'' \<notin> set s)"

section \<open>The file system\<close>

text \<open>
  The file system is one tree of regular files and directories (symbolic links and special
  files are outside the model). A directory lists its entries in the order
  \<^verbatim>\<open>readdir\<close> returns them.
\<close>

datatype node = File string | Dir "(string \<times> node) list"

fun is_dir :: "node \<Rightarrow> bool" where
  "is_dir (Dir es) = True"
| "is_dir (File c) = False"

primrec lookup :: "path \<Rightarrow> node \<Rightarrow> node option" where
  "lookup [] n = Some n"
| "lookup (x # xs) n =
     (case n of
        File c \<Rightarrow> None
      | Dir es \<Rightarrow> (case map_of es x of None \<Rightarrow> None | Some c \<Rightarrow> lookup xs c))"

text \<open>\<open>blocked p n\<close>: the path runs through a regular file (the system's ENOTDIR).\<close>

primrec blocked :: "path \<Rightarrow> node \<Rightarrow> bool" where
  "blocked [] n = False"
| "blocked (x # xs) n =
     (case n of
        File c \<Rightarrow> True
      | Dir es \<Rightarrow> (case map_of es x of None \<Rightarrow> False | Some c \<Rightarrow> blocked xs c))"

text \<open>
  \<open>put p v n\<close> stores the node \<open>v\<close> at \<open>p\<close>, creating the missing directories on the way
  (callers rule out \<open>blocked\<close> first). \<open>del p n\<close> removes the entry at \<open>p\<close> with everything below.
\<close>

primrec put :: "path \<Rightarrow> node \<Rightarrow> node \<Rightarrow> node" where
  "put [] v n = v"
| "put (x # xs) v n =
     (case n of
        File c \<Rightarrow> File c
      | Dir es \<Rightarrow>
          Dir (AList.update x
                 (put xs v (case map_of es x of None \<Rightarrow> Dir [] | Some c \<Rightarrow> c)) es))"

fun del :: "path \<Rightarrow> node \<Rightarrow> node" where
  "del [] n = n"
| "del [x] n = (case n of File c \<Rightarrow> File c | Dir es \<Rightarrow> Dir (AList.delete x es))"
| "del (x # y # ys) n =
     (case n of
        File c \<Rightarrow> File c
      | Dir es \<Rightarrow>
          (case map_of es x of
             None \<Rightarrow> Dir es
           | Some c \<Rightarrow> Dir (AList.update x (del (y # ys) c) es)))"

text \<open>
  Well-formed trees: the names of a directory are distinct, and each is one path segment.
\<close>

fun wf_node :: "node \<Rightarrow> bool" where
  "wf_node (File c) = True"
| "wf_node (Dir es) =
     (distinct (map fst es) \<and> (\<forall>(k, c) \<in> set es. plain_name k \<and> wf_node c))"

subsection \<open>Recursive copy\<close>

text \<open>
  \<^verbatim>\<open>fs.cp(src, dest, {recursive: true, force: true})\<close> on the node \<open>s\<close> at \<open>src\<close> and what is at
  \<open>dest\<close>: a missing destination receives a copy of \<open>s\<close>; an existing file is overwritten;
  an existing directory is merged entry by entry, in the order of the source; a
  directory over a file or a file over a directory is refused, and what was copied before
  the refusal stays.
\<close>

datatype errno =
  ENOENT | ENOTDIR | EEXIST | EACCES | EPERM | EBUSY | ENOSPC | EIO
  | ERR_FS_CP_EINVAL | ERR_FS_CP_DIR_TO_NON_DIR | ERR_FS_CP_NON_DIR_TO_DIR

fun cp_node :: "node \<Rightarrow> node option \<Rightarrow> node \<times> errno option"
  and cp_entries :: "(string \<times> node) list \<Rightarrow> (string \<times> node) list
                       \<Rightarrow> (string \<times> node) list \<times> errno option" where
  "cp_node s None = (s, None)"
| "cp_node (File c) (Some (File d)) = (File c, None)"
| "cp_node (File c) (Some (Dir ds)) = (Dir ds, Some ERR_FS_CP_NON_DIR_TO_DIR)"
| "cp_node (Dir es) (Some (File d)) = (File d, Some ERR_FS_CP_DIR_TO_NON_DIR)"
| "cp_node (Dir es) (Some (Dir ds)) = (case cp_entries es ds of (ds', r) \<Rightarrow> (Dir ds', r))"
| "cp_entries [] ds = (ds, None)"
| "cp_entries ((k, s) # es) ds =
     (case cp_node s (map_of ds k) of
        (m, None) \<Rightarrow> cp_entries es (AList.update k m ds)
      | (m, Some e) \<Rightarrow> (AList.update k m ds, Some e))"

section \<open>Errors, the world and effects\<close>

text \<open>
  A thrown JavaScript error: its \<open>message\<close>, and for the errors of the \<^verbatim>\<open>fs\<close> module the
  \<open>code\<close> and the offending \<open>path\<close>.
\<close>

datatype error = Error (message: string) (code: "errno option") (errpath: "path option")

fun show_errno :: "errno \<Rightarrow> string" where
  "show_errno ENOENT = ''ENOENT: no such file or directory''"
| "show_errno ENOTDIR = ''ENOTDIR: not a directory''"
| "show_errno EEXIST = ''EEXIST: file already exists''"
| "show_errno EACCES = ''EACCES: permission denied''"
| "show_errno EPERM = ''EPERM: operation not permitted''"
| "show_errno EBUSY = ''EBUSY: resource busy or locked''"
| "show_errno ENOSPC = ''ENOSPC: no space left on device''"
| "show_errno EIO = ''EIO: i/o error''"
| "show_errno ERR_FS_CP_EINVAL = ''Invalid src or dest: cp returned EINVAL''"
| "show_errno ERR_FS_CP_DIR_TO_NON_DIR = ''Cannot overwrite non-directory with directory''"
| "show_errno ERR_FS_CP_NON_DIR_TO_DIR = ''Cannot overwrite directory with non-directory''"

definition fs_error :: "errno \<Rightarrow> string \<Rightarrow> path \<Rightarrow> error" where
  "fs_error e syscall p =
     Error (show_errno e @ '', '' @ syscall @ '' '' @ [CHR 0x27] @ show_path p @ [CHR 0x27])
       (Some e) (Some p)"

text \<open>The template literal \<^verbatim>\<open>${error}\<close>.\<close>

definition show_error :: "error \<Rightarrow> string" where
  "show_error e = ''Error: '' @ message e"

datatype level = LDebug | LInfo | LWarn | LError

text \<open>
  What the user is shown: \<^verbatim>\<open>showErrorMessage\<close>, \<^verbatim>\<open>showWarningMessage\<close> and
  \<^verbatim>\<open>showInformationMessage\<close> with the message, the \<^verbatim>\<open>modal\<close> option and the buttons, and
  \<^verbatim>\<open>executeCommand\<close> with its argument.
\<close>

datatype ui =
  ErrorMessage string bool "string list"
  | WarningMessage string "string list"
  | InformationMessage string "string list"
  | ExecuteCommand string string

fun is_modal :: "ui \<Rightarrow> bool" where
  "is_modal (ErrorMessage m modal bs) = modal"
| "is_modal u = False"

record RulesConfig =
  repoUrl :: string
  teamNames :: "string list"
  rulesFolderPath :: path
  cacheDirPath :: path
  syncIntervalMinutes :: int
  branch :: string

text \<open>
  The settings of the \<^verbatim>\<open>aiRulesSyncer\<close> section as the editor stores them: the team names
  as one comma-separated string or as an array, the two paths already resolved to absolute
  paths, and the branch at user (global) and at workspace level.
\<close>

datatype raw_teams = TeamString string | TeamArray "string list"

record vsconfig =
  v_repoUrl :: string
  v_teamNames :: raw_teams
  v_rulesFolderPath :: path
  v_cacheDirPath :: path
  v_syncIntervalMinutes :: int
  v_branchGlobal :: "string option"
  v_branchWorkspace :: "string option"

record world =
  files :: node
  logs :: "(level \<times> string) list"
  shown :: "ui list"
  vs :: vsconfig
  isDisposed :: bool
  syncTimer :: "int option"

text \<open>
  An asynchronous operation takes the world and returns the world it leaves with either
  the error it throws (\<open>Inl\<close>) or its value (\<open>Inr\<close>).
\<close>

type_synonym 'a io = "world \<Rightarrow> world \<times> (error + 'a)"

definition ret :: "'a \<Rightarrow> 'a io" where
  "ret x = (\<lambda>w. (w, Inr x))"

definition throw :: "error \<Rightarrow> 'a io" where
  "throw e = (\<lambda>w. (w, Inl e))"

definition bind :: "'a io \<Rightarrow> ('a \<Rightarrow> 'b io) \<Rightarrow> 'b io" where
  "bind m k = (\<lambda>w. case m w of (w', Inl e) \<Rightarrow> (w', Inl e) | (w', Inr x) \<Rightarrow> k x w')"

definition seq :: "'a io \<Rightarrow> 'b io \<Rightarrow> 'b io" where
  "seq m k = bind m (\<lambda>x. k)"

definition try_catch :: "'a io \<Rightarrow> (error \<Rightarrow> 'a io) \<Rightarrow> 'a io" where
  "try_catch m h = (\<lambda>w. case m w of (w', Inl e) \<Rightarrow> h e w' | (w', Inr x) \<Rightarrow> (w', Inr x))"

definition try_finally :: "'a io \<Rightarrow> unit io \<Rightarrow> 'a io" where
  "try_finally m f =
     (\<lambda>w. case m w of
        (w', r) \<Rightarrow> (case f w' of (w'', Inl e) \<Rightarrow> (w'', Inl e) | (w'', Inr u) \<Rightarrow> (w'', r)))"

fun for_each :: "('a \<Rightarrow> unit io) \<Rightarrow> 'a list \<Rightarrow> unit io" where
  "for_each f [] = ret ()"
| "for_each f (x # xs) = seq (f x) (for_each f xs)"

definition logger :: "level \<Rightarrow> string \<Rightarrow> unit io" where
  "logger l msg = (\<lambda>w. (w\<lparr>logs := logs w @ [(l, msg)]\<rparr>, Inr ()))"

definition show_ui :: "ui \<Rightarrow> unit io" where
  "show_ui u = (\<lambda>w. (w\<lparr>shown := shown w @ [u]\<rparr>, Inr ()))"

subsection \<open>The primitives of the fs module\<close>

text \<open>
  Each call that changes or lists the tree first asks the environment: \<open>flt\<close> names the
  calls that fail for a reason outside the tree (permissions, a locked file, a full disk).
  Such a fault carries the error that the call throws, as Node reports it (with the system
  call and the path that failed, which may lie below the argument), and the part of the
  work that was done before the failure: for a removal the entries below the target that
  were already deleted, for a copy the entries below the source that were already copied,
  both as paths relative to the argument. A directory creation or a listing that fails
  leaves the tree as it was. Otherwise the call acts on the tree, and fails only for what
  the tree holds. \<^verbatim>\<open>fs.stat\<close> has no faults: an entry that cannot be examined
  counts as missing from the tree, which is how its two callers treat it.
\<close>

datatype fsop = Rm path | Mkdir path | Readdir path | Cp path path

datatype fault = Fault (thrown: error) (partial: "path list")

type_synonym faults = "fsop \<Rightarrow> fault option"

datatype dirent = Dirent (name: string) (isDirectory: bool)

text \<open>
  \<^verbatim>\<open>fs.rm(p, {recursive: true, force: true})\<close>: a missing target is no error. The removal
  works from the leaves up, so a removal that fails has deleted some of the entries below
  the target and leaves the rest.
\<close>

definition fs_rm :: "faults \<Rightarrow> path \<Rightarrow> unit io" where
  "fs_rm flt p =
     (\<lambda>w. case flt (Rm p) of
        Some f \<Rightarrow>
          (w\<lparr>files := foldl (\<lambda>n r. del (p @ r) n) (files w) (filter (\<lambda>r. r \<noteq> []) (partial f))\<rparr>,
           Inl (thrown f))
      | None \<Rightarrow>
          if p = [] then (w, Inl (fs_error EBUSY ''rmdir'' p))
          else if blocked p (files w) then (w, Inl (fs_error ENOTDIR ''lstat'' p))
          else (w\<lparr>files := del p (files w)\<rparr>, Inr ()))"

text \<open>\<^verbatim>\<open>fs.mkdir(p, {recursive: true})\<close>: an existing directory is no error.\<close>

definition fs_mkdir :: "faults \<Rightarrow> path \<Rightarrow> unit io" where
  "fs_mkdir flt p =
     (\<lambda>w. case flt (Mkdir p) of
        Some f \<Rightarrow> (w, Inl (thrown f))
      | None \<Rightarrow>
          if blocked p (files w) then (w, Inl (fs_error ENOTDIR ''mkdir'' p))
          else (case lookup p (files w) of
                  Some (File c) \<Rightarrow> (w, Inl (fs_error EEXIST ''mkdir'' p))
                | Some (Dir es) \<Rightarrow> (w, Inr ())
                | None \<Rightarrow> (w\<lparr>files := put p (Dir []) (files w)\<rparr>, Inr ())))"

text \<open>\<^verbatim>\<open>fs.readdir(p, {withFileTypes: true})\<close>.\<close>

definition fs_readdir :: "faults \<Rightarrow> path \<Rightarrow> dirent list io" where
  "fs_readdir flt p =
     (\<lambda>w. case flt (Readdir p) of
        Some f \<Rightarrow> (w, Inl (thrown f))
      | None \<Rightarrow>
          (case lookup p (files w) of
             None \<Rightarrow> (w, Inl (fs_error (if blocked p (files w) then ENOTDIR else ENOENT) ''scandir'' p))
           | Some (File c) \<Rightarrow> (w, Inl (fs_error ENOTDIR ''scandir'' p))
           | Some (Dir es) \<Rightarrow> (w, Inr (map (\<lambda>(k, c). Dirent k (is_dir c)) es))))"

text \<open>\<^verbatim>\<open>(await fs.stat(p)).isDirectory()\<close>.\<close>

definition fs_stat :: "path \<Rightarrow> bool io" where
  "fs_stat p =
     (\<lambda>w. case lookup p (files w) of
        None \<Rightarrow> (w, Inl (fs_error (if blocked p (files w) then ENOTDIR else ENOENT) ''stat'' p))
      | Some n \<Rightarrow> (w, Inr (is_dir n)))"

text \<open>
  One step of a copy that later fails: the entry \<open>r\<close> below the source was copied, a file
  with its content, a directory as a new empty directory unless it was there.
\<close>

definition cp_step :: "path \<Rightarrow> path \<Rightarrow> node \<Rightarrow> path \<Rightarrow> node" where
  "cp_step src dest n r =
     (if blocked (dest @ r) n then n
      else (case lookup (src @ r) n of
              None \<Rightarrow> n
            | Some (File c) \<Rightarrow>
                (case lookup (dest @ r) n of Some (Dir ds) \<Rightarrow> n | _ \<Rightarrow> put (dest @ r) (File c) n)
            | Some (Dir es) \<Rightarrow>
                (case lookup (dest @ r) n of None \<Rightarrow> put (dest @ r) (Dir []) n | _ \<Rightarrow> n)))"

text \<open>
  \<^verbatim>\<open>fs.cp(src, dest, {recursive: true, force: true})\<close>: the source must exist, must not be the
  destination, and a directory is not copied below itself; the parent of the destination
  is created when it is missing.
\<close>

definition fs_cp :: "faults \<Rightarrow> path \<Rightarrow> path \<Rightarrow> unit io" where
  "fs_cp flt src dest =
     (\<lambda>w. case flt (Cp src dest) of
        Some f \<Rightarrow> (w\<lparr>files := foldl (cp_step src dest) (files w) (partial f)\<rparr>, Inl (thrown f))
      | None \<Rightarrow>
          (case lookup src (files w) of
             None \<Rightarrow>
               (w, Inl (fs_error (if blocked src (files w) then ENOTDIR else ENOENT) ''lstat'' src))
           | Some s \<Rightarrow>
               if src = dest \<or> (is_dir s \<and> prefix src dest)
               then (w, Inl (fs_error ERR_FS_CP_EINVAL ''cp'' dest))
               else if blocked dest (files w) then (w, Inl (fs_error ENOTDIR ''lstat'' dest))
               else (case cp_node s (lookup dest (files w)) of
                       (m, r) \<Rightarrow>
                         (w\<lparr>files := put dest m (files w)\<rparr>,
                          case r of None \<Rightarrow> Inr () | Some e \<Rightarrow> Inl (fs_error e ''cp'' dest)))))"

section \<open>FileSyncer\<close>

definition removeDestination :: "faults \<Rightarrow> path \<Rightarrow> unit io" where
  "removeDestination flt rulesPath =
     seq (logger LDebug ''Removing destination directory entirely'')
       (try_catch
          (seq (fs_rm flt rulesPath) (logger LDebug ''Destination directory removed''))
          (\<lambda>error.
             if code error \<noteq> Some ENOENT
             then logger LWarn (''Failed to remove destination directory: '' @ show_error error)
             else ret ()))"

definition copyRecursive :: "faults \<Rightarrow> path \<Rightarrow> path \<Rightarrow> unit io" where
  "copyRecursive flt src dest = fs_cp flt src dest"

definition directoryExists :: "path \<Rightarrow> bool io" where
  "directoryExists dirPath = try_catch (fs_stat dirPath) (\<lambda>e. ret False)"

definition hasExistingContent :: "path \<Rightarrow> bool io" where
  "hasExistingContent repoPath = try_catch (fs_stat repoPath) (\<lambda>e. ret False)"

text \<open>The body of the inner loop of \<^verbatim>\<open>copyRulesFromRepo\<close>, for one team name.\<close>

definition copyTeam :: "faults \<Rightarrow> path \<Rightarrow> path \<Rightarrow> string \<Rightarrow> string \<Rightarrow> unit io" where
  "copyTeam flt sourcePath teamDestRoot entryName teamName =
     bind (directoryExists (path_join sourcePath teamName))
       (\<lambda>found.
          if found then
            seq (copyRecursive flt (path_join sourcePath teamName) (path_join teamDestRoot teamName))
              (logger LInfo (''Copied team rules for: '' @ teamName @ '' from '' @ entryName @ ''/''))
          else
            logger LInfo
              (''Team folder not found under '' @ entryName @ ''/: '' @ teamName @ '' (skipping)''))"

text \<open>The body of the outer loop, for one entry of the repository's top level.\<close>

definition copyEntry :: "faults \<Rightarrow> path \<Rightarrow> RulesConfig \<Rightarrow> dirent \<Rightarrow> unit io" where
  "copyEntry flt repoPath config entry =
     (if startsWith (name entry) ''.'' \<or> \<not> isDirectory entry then ret ()
      else if startsWith (name entry) ''team'' then
        seq (fs_mkdir flt (path_join (rulesFolderPath config) (name entry)))
          (for_each
             (copyTeam flt (path_join repoPath (name entry))
                (path_join (rulesFolderPath config) (name entry)) (name entry))
             (teamNames config))
      else
        seq (copyRecursive flt (path_join repoPath (name entry))
               (path_join (rulesFolderPath config) (name entry)))
          (logger LInfo (''Copied folder: '' @ name entry)))"

definition copyRulesFromRepo :: "faults \<Rightarrow> path \<Rightarrow> RulesConfig \<Rightarrow> unit io" where
  "copyRulesFromRepo flt repoPath config =
     bind (fs_readdir flt repoPath) (for_each (copyEntry flt repoPath config))"

definition syncFiles :: "faults \<Rightarrow> path \<Rightarrow> RulesConfig \<Rightarrow> unit io" where
  "syncFiles flt repoPath config =
     seq (logger LInfo
            (''Starting file sync from '' @ show_path repoPath @ '' to ''
               @ show_path (rulesFolderPath config)))
       (seq (removeDestination flt (rulesFolderPath config))
          (seq (fs_mkdir flt (rulesFolderPath config))
             (seq (copyRulesFromRepo flt repoPath config)
                (logger LInfo ''File sync completed''))))"

section \<open>The environment of one sync attempt\<close>

text \<open>
  What lies outside the program during one attempt: the failures of the file system, the
  outcome of taking and releasing the lock file, the outcome of each git command, whether
  writing a setting is rejected, and the button the user presses when a dialog is awaited
  (\<open>None\<close>: the dialog is dismissed). A git command that fails carries its message.
\<close>

record env =
  fs_faults :: faults
  lock_result :: "string option"
  release_result :: "string option"
  clone_result :: "string + node"
  revparse_head :: "string + string"
  fetch_result :: "string option"
  default_branch :: string
  revparse_remote :: "string \<Rightarrow> string + string"
  reset_result :: "string + node"
  revparse_abbrev :: "string + string"
  update_setting :: "string option"
  answer :: "string option"

text \<open>
  What is fixed for the session: the first workspace folder, and the function from a
  repository URL to the name of its cache directory (\<^verbatim>\<open>generateRepoSlug\<close>, a parameter
  of the model).
\<close>

record host =
  workspaceFolder :: "path option"
  generateRepoSlug :: "string \<Rightarrow> string"

text \<open>
  \<^verbatim>\<open>String.prototype.trim\<close> removes white space and line terminators from both ends. Among
  the characters with a code below 256 these are the space, the tab, the line feed, the
  vertical tab, the form feed, the carriage return and the no-break space.
\<close>

definition is_space :: "char \<Rightarrow> bool" where
  "is_space c = (c \<in> set [CHR '' '', CHR 0x09, CHR 0x0A, CHR 0x0B, CHR 0x0C, CHR 0x0D, CHR 0xA0])"

definition trim :: "string \<Rightarrow> string" where
  "trim s = rev (dropWhile is_space (rev (dropWhile is_space s)))"

fun join_with :: "string \<Rightarrow> string list \<Rightarrow> string" where
  "join_with d [] = []"
| "join_with d [x] = x"
| "join_with d (x # y # ys) = x @ d @ join_with d (y # ys)"

definition git :: "string + 'a \<Rightarrow> 'a io" where
  "git r = (case r of Inl m \<Rightarrow> throw (Error m None None) | Inr x \<Rightarrow> ret x)"

section \<open>ConfigManager\<close>

definition getConfig :: "world \<Rightarrow> RulesConfig" where
  "getConfig w =
     \<lparr>repoUrl = v_repoUrl (vs w),
      teamNames =
        (case v_teamNames (vs w) of
           TeamArray xs \<Rightarrow> filter (\<lambda>s. s \<noteq> []) (map trim xs)
         | TeamString s \<Rightarrow> filter (\<lambda>s. s \<noteq> []) (map trim (split_on CHR '','' s))),
      rulesFolderPath = v_rulesFolderPath (vs w),
      cacheDirPath = v_cacheDirPath (vs w),
      syncIntervalMinutes = v_syncIntervalMinutes (vs w),
      branch =
        (case v_branchWorkspace (vs w) of
           Some b \<Rightarrow> b
         | None \<Rightarrow> (case v_branchGlobal (vs w) of Some b \<Rightarrow> b | None \<Rightarrow> ''''))\<rparr>"

text \<open>The regular expression \<^verbatim>\<open>/^(https?:\/\/|git@)/\<close>.\<close>

definition urlPattern :: "string \<Rightarrow> bool" where
  "urlPattern s = (startsWith s ''http://'' \<or> startsWith s ''https://'' \<or> startsWith s ''git@'')"

definition isConfigured :: "world \<Rightarrow> bool" where
  "isConfigured w = (trim (repoUrl (getConfig w)) \<noteq> [] \<and> urlPattern (trim (repoUrl (getConfig w))))"

text \<open>
  \<^verbatim>\<open>path.relative(root, p)\<close> is non-empty, does not start with \<open>..\<close> and is not absolute: \<open>p\<close>
  lies strictly below \<open>root\<close>, and its first segment below \<open>root\<close> does not start with \<open>..\<close>.
\<close>

definition isInsideWorkspace :: "path \<Rightarrow> path \<Rightarrow> bool" where
  "isInsideWorkspace root p =
     (prefix root p \<and>
      (case drop (length root) p of [] \<Rightarrow> False | s # ss \<Rightarrow> \<not> startsWith s ''..''))"

definition validateConfig :: "host \<Rightarrow> RulesConfig \<Rightarrow> string list" where
  "validateConfig h config =
     (if trim (repoUrl config) = [] then [''Repository URL is required'']
      else if \<not> urlPattern (repoUrl config)
      then [''Repository URL must be a valid HTTPS or SSH URL'']
      else [])
     @ (if syncIntervalMinutes config < 0 then [''Sync interval must be zero or positive''] else [])
     @ (case workspaceFolder h of
          None \<Rightarrow> []
        | Some root \<Rightarrow>
            if \<not> isInsideWorkspace root (rulesFolderPath config)
            then [''Rules folder path must be inside the workspace'']
            else if length (drop (length root) (rulesFolderPath config)) < 1
            then [''Rules folder path must not be the workspace root; choose a subfolder'']
            else [])"

definition setBranchDefault :: "env \<Rightarrow> string \<Rightarrow> unit io" where
  "setBranchDefault e actualBranch =
     (\<lambda>w.
        if trim (case v_branchGlobal (vs w) of Some b \<Rightarrow> b | None \<Rightarrow> '''') = [] \<and> actualBranch \<noteq> []
        then
          (case update_setting e of
             Some m \<Rightarrow> (w, Inl (Error m None None))
           | None \<Rightarrow>
               seq (logger LInfo (''Auto-configured branch setting at user level to: '' @ actualBranch))
                 (if trim (case v_branchWorkspace (vs w) of Some b \<Rightarrow> b | None \<Rightarrow> '''') \<noteq> []
                  then logger LInfo
                         (''Note: Workspace branch '' @ [CHR 0x27]
                            @ (case v_branchWorkspace (vs w) of Some b \<Rightarrow> b | None \<Rightarrow> '''')
                            @ [CHR 0x27] @ '' will override user default'')
                  else ret ())
                 (w\<lparr>vs := (vs w)\<lparr>v_branchGlobal := Some actualBranch\<rparr>\<rparr>))
        else (w, Inr ()))"

section \<open>GitManager\<close>

definition getRepositoryPath :: "host \<Rightarrow> RulesConfig \<Rightarrow> path" where
  "getRepositoryPath h config = path_join (cacheDirPath config) (generateRepoSlug h (repoUrl config))"

definition repositoryExists :: "path \<Rightarrow> bool io" where
  "repositoryExists repoPath = try_catch (fs_stat (path_join repoPath ''.git'')) (\<lambda>e. ret False)"

text \<open>
  \<^verbatim>\<open>git clone\<close> that succeeds leaves the working copy the environment names at \<open>repoPath\<close>;
  so does \<^verbatim>\<open>git reset --hard\<close>.
\<close>

definition checkout :: "string + node \<Rightarrow> path \<Rightarrow> unit io" where
  "checkout r repoPath =
     (\<lambda>w. case r of
        Inl m \<Rightarrow> (w, Inl (Error m None None))
      | Inr tree \<Rightarrow> (w\<lparr>files := put repoPath tree (files w)\<rparr>, Inr ()))"

definition cloneRepository :: "env \<Rightarrow> RulesConfig \<Rightarrow> path \<Rightarrow> string io" where
  "cloneRepository e config repoPath =
     try_catch
       (seq (checkout (clone_result e) repoPath)
          (seq (logger LInfo (''Successfully cloned repository to '' @ show_path repoPath))
             (bind (git (revparse_abbrev e)) (\<lambda>currentBranch. ret (trim currentBranch)))))
       (\<lambda>error.
          seq (logger LError (''Failed to clone repository '' @ show_error error))
            (throw (Error (''Git clone failed: '' @ message error) None None)))"

definition fetchRepository :: "env \<Rightarrow> RulesConfig \<Rightarrow> path \<Rightarrow> unit io" where
  "fetchRepository e config repoPath =
     try_catch
       (bind (git (revparse_head e)) (\<lambda>currentCommit.
          seq (git (case fetch_result e of Some m \<Rightarrow> Inl m | None \<Rightarrow> Inr ()))
            (bind (ret (if branch config \<noteq> [] then branch config else default_branch e))
               (\<lambda>remoteBranch.
                  bind (git (revparse_remote e (''origin/'' @ remoteBranch))) (\<lambda>remoteCommit.
                    if currentCommit \<noteq> remoteCommit then
                      seq (logger LInfo
                             (''New commits available, updating from '' @ take 8 currentCommit
                                @ '' to '' @ take 8 remoteCommit))
                        (checkout (reset_result e) repoPath)
                    else logger LInfo ''Repository is already up to date'')))))
       (\<lambda>error.
          seq (logger LError (''Failed to fetch repository updates '' @ show_error error))
            (bind (repositoryExists repoPath) (\<lambda>hasLocalCopy.
               if hasLocalCopy
               then logger LWarn ''Using existing cached copy due to fetch failure''
               else throw (Error (''Git fetch failed: '' @ message error) None None))))"

definition acquireLock :: "env \<Rightarrow> path \<Rightarrow> unit io" where
  "acquireLock e lockTargetPath =
     seq (fs_mkdir (fs_faults e) (path_dirname lockTargetPath))
       (case lock_result e of
          None \<Rightarrow> ret ()
        | Some m \<Rightarrow> throw (Error (''Failed to acquire lock: '' @ m) None None))"

definition releaseLock :: "env \<Rightarrow> unit io" where
  "releaseLock e =
     (case release_result e of
        None \<Rightarrow> ret ()
      | Some m \<Rightarrow> logger LWarn (''Failed to release lock: '' @ m))"

definition ensureRepository :: "env \<Rightarrow> host \<Rightarrow> RulesConfig \<Rightarrow> (path \<times> string option) io" where
  "ensureRepository e h config =
     seq (fs_mkdir (fs_faults e) (path_dirname (getRepositoryPath h config)))
       (seq (acquireLock e (getRepositoryPath h config))
          (try_finally
             (bind (repositoryExists (getRepositoryPath h config)) (\<lambda>repoExists.
                if \<not> repoExists then
                  seq (logger LInfo
                         (''Cloning repository for the first time to ''
                            @ show_path (getRepositoryPath h config)))
                    (bind (cloneRepository e config (getRepositoryPath h config))
                       (\<lambda>actualBranch. ret (getRepositoryPath h config, Some actualBranch)))
                else
                  seq (logger LInfo ''Repository exists, fetching updates'')
                    (seq (fetchRepository e config (getRepositoryPath h config))
                       (if branch config = [] then
                          bind (git (revparse_abbrev e))
                            (\<lambda>b. ret (getRepositoryPath h config, Some (trim b)))
                        else ret (getRepositoryPath h config, None)))))
             (releaseLock e)))"

section \<open>RulesManager\<close>

definition notConfiguredPrompt :: "env \<Rightarrow> unit io" where
  "notConfiguredPrompt e =
     seq (show_ui (WarningMessage ''AI Rules Syncer is not configured. Open settings to configure now?''
                     [''Open Settings'', ''Cancel'']))
       (if answer e = Some ''Open Settings''
        then show_ui (ExecuteCommand ''workbench.action.openSettings'' ''aiRulesSyncer'')
        else ret ())"

definition syncRules :: "env \<Rightarrow> host \<Rightarrow> unit io" where
  "syncRules e h =
     (\<lambda>w.
        if isDisposed w then (w, Inr ())
        else if \<not> isConfigured w then notConfiguredPrompt e w
        else if validateConfig h (getConfig w) \<noteq> [] then
          seq (logger LWarn (''Configuration invalid: '' @ join_with '', '' (validateConfig h (getConfig w))))
            (show_ui (WarningMessage
               (''Configuration invalid: '' @ join_with '', '' (validateConfig h (getConfig w))) []))
            w
        else
          try_catch
            (seq (logger LInfo (''Syncing rules from '' @ repoUrl (getConfig w)))
               (bind (ensureRepository e h (getConfig w)) (\<lambda>(repoPath, actualBranch).
                  seq (case actualBranch of
                         None \<Rightarrow> ret ()
                       | Some b \<Rightarrow> if b \<noteq> [] then setBranchDefault e b else ret ())
                    (seq (syncFiles (fs_faults e) repoPath (getConfig w))
                       (logger LInfo ''Rules sync completed successfully'')))))
            (\<lambda>error. seq (logger LError (''Sync failed '' @ show_error error)) (throw error))
            w)"

text \<open>
  The timer is its interval in milliseconds; the log line of a new timer is kept without
  the number of minutes.
\<close>

definition setupPeriodicSync :: "host \<Rightarrow> world \<Rightarrow> world" where
  "setupPeriodicSync h w =
     (if validateConfig h (getConfig w) \<noteq> [] then
        fst (logger LWarn
               (''Skipping periodic sync due to invalid configuration: ''
                  @ join_with '', '' (validateConfig h (getConfig w)))
               (w\<lparr>syncTimer := None\<rparr>))
      else if syncIntervalMinutes (getConfig w) > 0 then
        (fst (logger LInfo ''Setting up periodic sync'' (w\<lparr>syncTimer := None\<rparr>)))
          \<lparr>syncTimer := Some (syncIntervalMinutes (getConfig w) * 60 * 1000)\<rparr>
      else w\<lparr>syncTimer := None\<rparr>)"

text \<open>
  The fallback of both dialogs: mirror the cached repository when its directory exists.
  \<open>used\<close> is what is shown after a mirror that succeeded, \<open>none\<close> and \<open>failed\<close> are the
  notices when there is no cache and when the fallback throws.
\<close>

definition useLocalCopy :: "env \<Rightarrow> host \<Rightarrow> unit io \<Rightarrow> string \<Rightarrow> string \<Rightarrow> world \<Rightarrow> world" where
  "useLocalCopy e h used none failed w =
     fst (try_catch
            (bind (hasExistingContent (getRepositoryPath h (getConfig w))) (\<lambda>found.
               if found then
                 seq (syncFiles (fs_faults e) (getRepositoryPath h (getConfig w)) (getConfig w))
                   (seq (logger LInfo ''Using existing cached rules'') used)
               else show_ui (WarningMessage none [])))
            (\<lambda>fallbackError.
               seq (logger LError (''Fallback to cached rules failed '' @ show_error fallbackError))
                 (show_ui (WarningMessage failed [])))
            w)"

text \<open>
  \<^verbatim>\<open>performInitialSync\<close> and \<^verbatim>\<open>handleSyncError\<close> call each other while the user presses
  Retry. Each attempt takes the next environment of the list; \<open>None\<close> says that the list
  ended while the user was still retrying.
\<close>

fun performInitialSync :: "host \<Rightarrow> env list \<Rightarrow> world \<Rightarrow> world option"
  and handleSyncError :: "host \<Rightarrow> error \<Rightarrow> bool \<Rightarrow> env \<Rightarrow> env list \<Rightarrow> world \<Rightarrow> world option" where
  "performInitialSync h [] w = None"
| "performInitialSync h (e # es) w =
     (case syncRules e h (fst (logger LInfo ''Starting initial sync...'' w)) of
        (w1, Inr u) \<Rightarrow> Some (setupPeriodicSync h w1)
      | (w1, Inl error) \<Rightarrow>
          handleSyncError h error True e es
            (fst (logger LError (''Initial sync failed '' @ show_error error) w1)))"
| "handleSyncError h error isFirstTime e es w =
     (if isFirstTime then
        (if answer e = Some ''Retry'' then
           performInitialSync h es
             (fst (show_ui (ErrorMessage (''Failed to sync AI rules: '' @ message error) True
                              [''Retry'', ''Work with local copy'']) w))
         else if answer e = Some ''Work with local copy'' then
           Some (useLocalCopy e h (ret ())
                   ''No rules available; working without rules''
                   ''No rules available; working without rules''
                   (fst (show_ui (ErrorMessage (''Failed to sync AI rules: '' @ message error) True
                                    [''Retry'', ''Work with local copy'']) w)))
         else
           Some (fst (show_ui (ErrorMessage (''Failed to sync AI rules: '' @ message error) True
                                 [''Retry'', ''Work with local copy'']) w)))
      else
        Some (fst (show_ui (WarningMessage (''Failed to sync rules: '' @ message error) []) w)))"

definition offerReconfiguration :: "env \<Rightarrow> host \<Rightarrow> string \<Rightarrow> world \<Rightarrow> world" where
  "offerReconfiguration e h errorMessage w =
     (if answer e = Some ''Open Settings'' then
        fst (seq (show_ui (WarningMessage (''Failed to access AI rules repository: '' @ errorMessage)
                             [''Open Settings'', ''Work with Local Copy'']))
               (show_ui (ExecuteCommand ''workbench.action.openSettings'' ''aiRulesSyncer.repoUrl''))
               w)
      else if answer e = Some ''Work with Local Copy'' then
        useLocalCopy e h
          (show_ui (InformationMessage
             ''Using existing cached AI rules. You can reconfigure the repository later.'' []))
          ''No cached rules available; working without rules. You can reconfigure the repository later.''
          ''No rules available; working without rules. You can reconfigure the repository later.''
          (fst (show_ui (WarningMessage (''Failed to access AI rules repository: '' @ errorMessage)
                           [''Open Settings'', ''Work with Local Copy'']) w))
      else
        fst (show_ui (WarningMessage (''Failed to access AI rules repository: '' @ errorMessage)
                        [''Open Settings'', ''Work with Local Copy'']) w))"

text \<open>The test of \<^verbatim>\<open>performInitialSetup\<close> for an error of repository access.\<close>

definition isRepositoryAccessError :: "string \<Rightarrow> bool" where
  "isRepositoryAccessError errorMessage =
     (str_includes errorMessage ''Repository not found'' \<or>
      str_includes errorMessage ''Could not read from remote repository'' \<or>
      str_includes errorMessage ''Authentication failed'' \<or>
      str_includes errorMessage ''Git clone failed'')"

definition performInitialSetup :: "host \<Rightarrow> env list \<Rightarrow> world \<Rightarrow> world option" where
  "performInitialSetup h envs w =
     (case envs of
        [] \<Rightarrow> None
      | e # es \<Rightarrow>
          (case
             (seq (logger LInfo ''Checking configuration...'')
                (\<lambda>w. if \<not> isConfigured w then
                        seq (logger LInfo ''Extension not configured; prompting to open settings'')
                          (seq (notConfiguredPrompt e) (ret False)) w
                      else if validateConfig h (getConfig w) \<noteq> [] then
                        seq (logger LWarn
                               (''Configuration invalid: ''
                                  @ join_with '', '' (validateConfig h (getConfig w))))
                          (seq (show_ui (WarningMessage
                                  (''Configuration invalid: ''
                                     @ join_with '', '' (validateConfig h (getConfig w))) []))
                             (ret False)) w
                      else
                        seq (logger LInfo ''Configuration valid, starting initial sync...'')
                          (seq (syncRules e h) (ret True)) w))
               w
           of
             (w1, Inr synced) \<Rightarrow> Some (if synced then setupPeriodicSync h w1 else w1)
           | (w1, Inl error) \<Rightarrow>
               if isRepositoryAccessError (message error) then
                 Some (offerReconfiguration e h (message error)
                         (fst (seq (logger LError (''Initial setup failed '' @ show_error error))
                                 (logger LWarn ''Repository access failed, offering reconfiguration'')
                                 w1)))
               else
                 handleSyncError h error True e es
                   (fst (logger LError (''Initial setup failed '' @ show_error error) w1))))"

text \<open>
  The three triggers after the initial setup: the callback of the periodic timer, the
  listener for changed settings (the event is its \<^verbatim>\<open>affectsConfiguration\<close> test), and the
  command \<^verbatim>\<open>aiRulesSyncer.refreshRules\<close> of the extension.
\<close>

definition timerTick :: "host \<Rightarrow> env \<Rightarrow> world \<Rightarrow> world option" where
  "timerTick h e w =
     (case syncRules e h w of
        (w1, Inr u) \<Rightarrow> Some w1
      | (w1, Inl error) \<Rightarrow> handleSyncError h error False e [] w1)"





section \<open>Auxiliary notions for the proofs\<close>

text \<open>Two paths are apart when neither lies in or at the other.\<close>

definition apart :: "path \<Rightarrow> path \<Rightarrow> bool" where
  "apart a b = (\<not> prefix a b \<and> \<not> prefix b a)"

fun entries :: "node \<Rightarrow> (string \<times> node) list" where
  "entries (Dir es) = es"
| "entries (File c) = []"

text \<open>
  What one round of each loop of \<^verbatim>\<open>copyRulesFromRepo\<close> adds to the listing of the
  directory it fills: \<open>team_step\<close> for a team name under a team directory with the entries
  \<open>sub\<close>, \<open>entry_step\<close> for a top-level entry of the repository.
\<close>

definition team_step ::
  "(string \<times> node) list \<Rightarrow> (string \<times> node) list \<Rightarrow> string \<Rightarrow> (string \<times> node) list" where
  "team_step sub acc t =
     (case map_of sub t of Some (Dir x) \<Rightarrow> AList.update t (Dir x) acc | _ \<Rightarrow> acc)"

definition entry_step ::
  "string list \<Rightarrow> (string \<times> node) list \<Rightarrow> string \<times> node \<Rightarrow> (string \<times> node) list" where
  "entry_step teams acc e =
     (if startsWith (fst e) ''.'' \<or> \<not> is_dir (snd e) then acc
      else if startsWith (fst e) ''team''
      then AList.update (fst e) (Dir (foldl (team_step (entries (snd e))) [] teams)) acc
      else AList.update (fst e) (snd e) acc)"

text \<open>
  The listing \<open>ds\<close> of a destination is the mirror of the listing \<open>es\<close> of a source for the
  selected \<open>teams\<close>: for every name, a directory of the source whose name starts with
  \<open>team\<close> appears as a directory holding exactly the selected teams that are directories
  under it, each with its whole subtree; any other directory of the source appears with
  its whole subtree; names that start with a dot, names of files and names that the
  source does not have do not appear. Both listings name each entry once.
\<close>

definition mirror_of :: "(string \<times> node) list \<Rightarrow> string list \<Rightarrow> (string \<times> node) list \<Rightarrow> bool" where
  "mirror_of es teams ds =
     (distinct (map fst ds) \<and>
      (\<forall>k. case map_of es k of
             Some (Dir sub) \<Rightarrow>
               if startsWith k ''.'' then map_of ds k = None
               else if startsWith k ''team'' then
                 (\<exists>ts. map_of ds k = Some (Dir ts) \<and> distinct (map fst ts) \<and>
                    (\<forall>t. map_of ts t =
                       (if t \<in> set teams \<and> (\<exists>x. map_of sub t = Some (Dir x))
                        then map_of sub t else None)))
               else map_of ds k = Some (Dir sub)
           | _ \<Rightarrow> map_of ds k = None))"

text \<open>
  \<open>tree_only m\<close>: the value of the operation and the file tree it leaves depend on the world
  through its file tree alone. \<open>preserves f m\<close>: the operation leaves the observation \<open>f\<close> of
  the world as it was, whether it returns or throws.
\<close>

definition tree_only :: "'a io \<Rightarrow> bool" where
  "tree_only m =
     (\<forall>w v. files w = files v \<longrightarrow> files (fst (m w)) = files (fst (m v)) \<and> snd (m w) = snd (m v))"

definition preserves :: "(world \<Rightarrow> 'b) \<Rightarrow> 'a io \<Rightarrow> bool" where
  "preserves f m = (\<forall>w. f (fst (m w)) = f w)"

text \<open>
  \<open>quiet m\<close>: whatever the operation shows to the user is added at the end of what was
  shown before, and none of it is a modal dialog. \<open>log_lines ls w\<close> is the world \<open>w\<close> after
  the lines \<open>ls\<close> were logged. \<open>first_failure_modal error\<close> is the modal dialog of
  \<^verbatim>\<open>handleSyncError\<close>.
\<close>

definition quiet :: "'a io \<Rightarrow> bool" where
  "quiet m = (\<forall>w. \<exists>xs. shown (fst (m w)) = shown w @ xs \<and> list_all (\<lambda>u. \<not> is_modal u) xs)"

definition log_lines :: "(level \<times> string) list \<Rightarrow> world \<Rightarrow> world" where
  "log_lines ls w = w\<lparr>logs := logs w @ ls\<rparr>"

definition first_failure_modal :: "error \<Rightarrow> ui" where
  "first_failure_modal error =
     ErrorMessage (''Failed to sync AI rules: '' @ message error) True
       [''Retry'', ''Work with local copy'']"



text \<open>
  What a path holds, without the order in which a directory lists its entries: a file with
  its content, or a directory. \<open>kind_at p n\<close> is what the tree \<open>n\<close> holds at \<open>p\<close>; two trees
  are the same below \<open>d\<close> when they hold the same at every path at or below \<open>d\<close>.
  \<open>over a b\<close> is \<open>a\<close> where it is defined and \<open>b\<close> elsewhere.
\<close>

datatype kind = KFile string | KDir

fun shape :: "node \<Rightarrow> kind" where
  "shape (File c) = KFile c"
| "shape (Dir es) = KDir"

definition kind_at :: "path \<Rightarrow> node \<Rightarrow> kind option" where
  "kind_at p n = map_option shape (lookup p n)"


definition over :: "'a option \<Rightarrow> 'a option \<Rightarrow> 'a option" where
  "over a b = (case a of Some x \<Rightarrow> Some x | None \<Rightarrow> b)"

text \<open>
  What the copy phase of a mirror writes at a path below the destination, for the listing
  \<open>es\<close> of the source and the selected teams: \<open>team_part\<close> below a team directory with the
  entries \<open>sub\<close>, \<open>entry_part\<close> below the copy of one top-level entry, \<open>mirrored\<close> below the
  destination.
\<close>

definition team_part :: "(string \<times> node) list \<Rightarrow> string set \<Rightarrow> path \<Rightarrow> kind option" where
  "team_part sub S q =
     (case q of
        [] \<Rightarrow> None
      | t # r \<Rightarrow>
          if t \<in> S then (case map_of sub t of Some (Dir x) \<Rightarrow> kind_at r (Dir x) | _ \<Rightarrow> None)
          else None)"




section \<open>A concrete scenario\<close>

text \<open>
  The repository of the project's own test of \<^verbatim>\<open>FileSyncer\<close>, with a \<^verbatim>\<open>.git\<close> directory and a
  top-level file added, cached at \<^verbatim>\<open>/cache/Org-rules\<close>; and a workspace \<^verbatim>\<open>/ws\<close> whose rules
  folder \<^verbatim>\<open>/ws/rules\<close> still holds a file of an earlier sync. The periodic sync is set to
  60 minutes and its timer is running.
\<close>

definition ex_repo :: node where
  "ex_repo =
     Dir [(''.git'', Dir [(''HEAD'', File ''ref: refs/heads/main'')]),
          (''general'', Dir [(''tone.mdc'', File ''tone'')]),
          (''README.md'', File ''readme''),
          (''team'', Dir [(''cloud-infra'', Dir [(''general.mdc'', File ''cloud'')]),
                          (''blue-team'', Dir [(''general.mdc'', File ''blue'')])]),
          (''teams'', Dir [(''cloud-infra'', Dir [(''extra.mdc'', File ''cloud-extra'')]),
                           (''data-science'', Dir [(''general.mdc'', File ''ds'')])])]"

definition ex_stale :: node where
  "ex_stale = Dir [(''team'', Dir [(''blue-team'', Dir [(''old.mdc'', File ''old'')])])]"

definition ex_files :: node where
  "ex_files = Dir [(''cache'', Dir [(''Org-rules'', ex_repo)]), (''ws'', Dir [(''rules'', ex_stale)])]"

definition ex_vs :: vsconfig where
  "ex_vs =
     \<lparr>v_repoUrl = ''https://github.com/Org/rules.git'',
      v_teamNames = TeamArray [''cloud-infra''],
      v_rulesFolderPath = [''ws'', ''rules''],
      v_cacheDirPath = [''cache''],
      v_syncIntervalMinutes = 60,
      v_branchGlobal = Some ''main'',
      v_branchWorkspace = None\<rparr>"

definition ex_world :: world where
  "ex_world =
     \<lparr>files = ex_files, logs = [], shown = [], vs = ex_vs, isDisposed = False,
      syncTimer = Some (60 * 60 * 1000)\<rparr>"

definition ex_config :: RulesConfig where
  "ex_config =
     \<lparr>repoUrl = ''https://github.com/Org/rules.git'',
      teamNames = [''cloud-infra''],
      rulesFolderPath = [''ws'', ''rules''],
      cacheDirPath = [''cache''],
      syncIntervalMinutes = 60,
      branch = ''main''\<rparr>"

definition ex_host :: host where
  "ex_host = \<lparr>workspaceFolder = Some [''ws''], generateRepoSlug = (\<lambda>url. ''Org-rules'')\<rparr>"

definition no_faults :: faults where
  "no_faults = (\<lambda>call. None)"

text \<open>The environment in which only the removal of the rules folder fails.\<close>

definition rm_denied :: faults where
  "rm_denied = (\<lambda>call. if call = Rm [''ws'', ''rules''] then Some (Fault (fs_error EACCES ''rmdir'' [''ws'', ''rules'']) []) else None)"

text \<open>
  The environment in which the removal of the rules folder deletes \<^verbatim>\<open>general\<close> and then fails
  at the old file.
\<close>

definition rm_partly :: faults where
  "rm_partly =
     (\<lambda>call. if call = Rm [''ws'', ''rules'']
              then Some (Fault
                     (fs_error EACCES ''unlink'' [''ws'', ''rules'', ''team'', ''blue-team'', ''old.mdc''])
                     [[''general'']])
              else None)"

text \<open>The same settings with the team name \<open>..\<close>.\<close>

definition ex_world_dotdot :: world where
  "ex_world_dotdot = ex_world\<lparr>vs := ex_vs\<lparr>v_teamNames := TeamArray [''..'']\<rparr>\<rparr>"

text \<open>
  Environments of an attempt. In \<open>ex_env\<close> nothing fails: the remote has no new commit.
  In \<open>ex_offline\<close> the fetch fails. In \<open>ex_disk_full\<close> the fetch works and the first copy
  into the rules folder fails once the directory is created. In \<open>ex_locked\<close> the lock file
  is held by another process. In \<open>ex_unreachable\<close> the clone fails.
\<close>

definition ex_env :: env where
  "ex_env =
     \<lparr>fs_faults = no_faults,
      lock_result = None,
      release_result = None,
      clone_result = Inr ex_repo,
      revparse_head = Inr ''0123456789abcdef'',
      fetch_result = None,
      default_branch = ''main'',
      revparse_remote = (\<lambda>ref. Inr ''0123456789abcdef''),
      reset_result = Inr ex_repo,
      revparse_abbrev = Inr ''main'',
      update_setting = None,
      answer = None\<rparr>"

definition ex_offline :: env where
  "ex_offline = ex_env\<lparr>fetch_result := Some ''fatal: unable to access the remote: Could not resolve host''\<rparr>"

definition ex_disk_full_error :: error where
  "ex_disk_full_error =
     Error (''ENOSPC: no space left on device, copyfile '' @ [CHR 0x27]
              @ ''/cache/Org-rules/general/tone.mdc'' @ [CHR 0x27] @ '' -> ''
              @ [CHR 0x27] @ ''/ws/rules/general/tone.mdc'' @ [CHR 0x27])
       (Some ENOSPC) (Some [''cache'', ''Org-rules'', ''general'', ''tone.mdc''])"

definition ex_disk_full :: env where
  "ex_disk_full =
     ex_env\<lparr>fs_faults :=
       (\<lambda>call. if call = Cp [''cache'', ''Org-rules'', ''general''] [''ws'', ''rules'', ''general'']
                then Some (Fault ex_disk_full_error [[]]) else None)\<rparr>"

definition ex_locked :: env where
  "ex_locked = ex_env\<lparr>lock_result := Some ''Lock file is already being held''\<rparr>"

definition ex_unreachable :: env where
  "ex_unreachable = ex_env\<lparr>clone_result := Inl ''fatal: unable to access the remote: Could not resolve host''\<rparr>"

text \<open>The world of a first run: the workspace is there, the cache is empty.\<close>

definition ex_fresh :: world where
  "ex_fresh =
     ex_world\<lparr>files := Dir [(''cache'', Dir []), (''ws'', Dir [])], syncTimer := None\<rparr>"

text \<open>The world after a first sync in which nothing failed.\<close>

definition ex_synced :: world where
  "ex_synced = fst (syncRules ex_env ex_host ex_world)"

text \<open>The lock is held and the user chooses the local copy.\<close>

definition ex_locked_local :: env where
  "ex_locked_local = ex_locked\<lparr>answer := Some ''Work with local copy''\<rparr>"

definition ex_lock_error :: error where
  "ex_lock_error = Error ''Failed to acquire lock: Lock file is already being held'' None None"

text \<open>The lock is held and the user asks for another attempt.\<close>

definition ex_locked_retry :: env where
  "ex_locked_retry = ex_locked\<lparr>answer := Some ''Retry''\<rparr>"

definition ex_clone_error :: error where
  "ex_clone_error =
     Error ''Git clone failed: fatal: unable to access the remote: Could not resolve host'' None None"

text \<open>The event of a change of the repository URL.\<close>

definition ex_url_changed :: "string \<Rightarrow> bool" where
  "ex_url_changed s = (s = ''aiRulesSyncer'' \<or> s = ''aiRulesSyncer.repoUrl'')"

text \<open>The configuration with a second team selected, one that the repository does not have.\<close>

definition ex_config_two :: RulesConfig where
  "ex_config_two = ex_config\<lparr>teamNames := [''cloud-infra'', ''security'']\<rparr>"

text \<open>
  A repository cached three levels deep, at \<^verbatim>\<open>/srv/cache/Org-rules\<close>, with an empty \<^verbatim>\<open>team\<close>
  directory; two directories outside the repository and outside the rules folder
  \<^verbatim>\<open>/ws/rules\<close>; and two team names that climb out of the team directory.
\<close>

definition ex_files_deep :: node where
  "ex_files_deep =
     Dir [(''srv'',
           Dir [(''cache'', Dir [(''Org-rules'', Dir [(''team'', Dir [])])]),
                (''ws'', Dir [(''rules'', Dir [(''extra'', Dir [(''note.mdc'', File ''old'')])])]),
                (''srv'',
                 Dir [(''ws'',
                       Dir [(''rules'', Dir [(''extra'', Dir [(''note.mdc'', File ''new'')])])])])]),
          (''ws'', Dir [])]"

definition ex_world_deep :: world where
  "ex_world_deep = ex_world\<lparr>files := ex_files_deep\<rparr>"

definition ex_config_deep :: RulesConfig where
  "ex_config_deep =
     ex_config\<lparr>teamNames := [''../../../ws/rules/extra'', ''../../../srv/ws/rules/extra''],
               cacheDirPath := [''srv'', ''cache'']\<rparr>"

text \<open>
  After a sync that succeeded the branch setting is removed, and the editor refuses to
  write the user settings.
\<close>

definition ex_synced_nobranch :: world where
  "ex_synced_nobranch = ex_synced\<lparr>vs := ex_vs\<lparr>v_branchGlobal := None\<rparr>\<rparr>"

definition ex_readonly :: env where
  "ex_readonly = ex_env\<lparr>update_setting := Some ''Unable to write into user settings''\<rparr>"

definition ex_readonly_error :: error where
  "ex_readonly_error = Error ''Unable to write into user settings'' None None"

section \<open>The file system: lookups after writes\<close>

lemma split_on_plain: "d \<notin> set s \<Longrightarrow> split_on d s = [s]"
  by (induction s) auto

lemma path_join_plain: "plain_name t \<Longrightarrow> path_join p t = p @ [t]"
  by (simp add: path_join_def plain_name_def split_on_plain enter_def)

lemma lookup_append:
  "lookup (p @ q) n = (case lookup p n of None \<Rightarrow> None | Some m \<Rightarrow> lookup q m)"
  by (induction p arbitrary: n) (auto split: node.splits option.splits)


lemma lookup_not_blocked: "lookup p n = Some m \<Longrightarrow> \<not> blocked p n"
  by (induction p arbitrary: n) (auto split: node.splits option.splits)

lemma blocked_Dir_Nil [simp]: "blocked p (Dir []) = False"
  by (cases p) auto

lemma lookup_Dir_Nil: "lookup p (Dir []) = (if p = [] then Some (Dir []) else None)"
  by (cases p) auto

lemma lookup_put_same: "\<not> blocked p n \<Longrightarrow> lookup p (put p v n) = Some v"
proof (induction p arbitrary: n)
  case Nil
  then show ?case by simp
next
  case (Cons x xs)
  then show ?case
    by (cases n) (auto simp: update_conv' split: option.splits)
qed

lemma lookup_put_other:
  "\<not> prefix p q \<Longrightarrow> \<not> prefix q p \<Longrightarrow> lookup q (put p v n) = lookup q n"
proof (induction p arbitrary: q n)
  case Nil
  then show ?case by simp
next
  case (Cons x xs)
  then obtain y ys where q: "q = y # ys" by (cases q) auto
  show ?case
  proof (cases n)
    case (File c)
    then show ?thesis by simp
  next
    case (Dir es)
    show ?thesis
    proof (cases "x = y")
      case False
      then show ?thesis using Dir q by (simp add: update_conv')
    next
      case True
      with Cons.prems q have d: "\<not> prefix xs ys" "\<not> prefix ys xs" by auto
      then have "ys \<noteq> []" by auto
      with d Cons.IH[OF d] show ?thesis using Dir q True
        by (auto simp: update_conv' lookup_Dir_Nil split: option.splits)
    qed
  qed
qed

lemma put_append:
  "lookup p n = Some m \<Longrightarrow> put (p @ q) v n = put p (put q v m) n"
  by (induction p arbitrary: n) (auto split: node.splits option.splits)

lemma put_id: "lookup p n = Some v \<Longrightarrow> put p v n = n"
  by (induction p arbitrary: n) (auto simp: update_triv split: node.splits option.splits)

lemma lookup_del_same: "p \<noteq> [] \<Longrightarrow> lookup p (del p n) = None"
  by (induction p n rule: del.induct)
     (auto simp: delete_conv' update_conv' split: node.splits option.splits)

lemma lookup_del_other:
  "\<not> prefix p q \<Longrightarrow> \<not> prefix q p \<Longrightarrow> lookup q (del p n) = lookup q n"
proof (induction p n arbitrary: q rule: del.induct)
  case (1 n)
  then show ?case by simp
next
  case (2 x n)
  then show ?case
    by (cases q; cases n) (auto simp: delete_conv' split: option.splits)
next
  case (3 x y ys n)
  then show ?case
    by (cases q; cases n) (auto simp: update_conv' split: option.splits)
qed

lemma blocked_del_same: "blocked p (del p n) = blocked p n"
  by (induction p n rule: del.induct)
     (auto simp: delete_conv' update_conv' split: node.splits option.splits)

lemma prefix_append_cases:
  "prefix a (b @ r) \<Longrightarrow> prefix a b \<or> prefix b a"
  by (metis prefix_same_cases prefixI)

lemmas io_defs = ret_def throw_def bind_def seq_def try_catch_def try_finally_def
  logger_def show_ui_def

lemma bind_Inr:
  "bind m k w = (w', Inr y) \<Longrightarrow> \<exists>v x. m w = (v, Inr x) \<and> k x v = (w', Inr y)"
  by (auto simp: bind_def split: prod.splits sum.splits)

lemma seq_Inr:
  "seq m k w = (w', Inr y) \<Longrightarrow> \<exists>v x. m w = (v, Inr x) \<and> k v = (w', Inr y)"
  by (auto simp: seq_def bind_def split: prod.splits sum.splits)

lemma logger_eq: "logger l m w = (w', r) \<Longrightarrow> files w' = files w \<and> r = Inr ()"
  by (auto simp: logger_def)

lemma fs_mkdir_Inr:
  assumes "fs_mkdir flt p w = (w', Inr u)"
  shows "\<not> blocked p (files w)"
    and "lookup p (files w) = None \<Longrightarrow> files w' = put p (Dir []) (files w)"
    and "lookup p (files w) \<noteq> None \<Longrightarrow> files w' = files w"
    and "\<exists>es. lookup p (files w') = Some (Dir es)"
  using assms
  by (auto simp: fs_mkdir_def lookup_put_same split: option.splits if_splits node.splits)

lemma fs_cp_Inr:
  assumes "fs_cp flt src dst w = (w', Inr u)"
  shows "\<exists>s. lookup src (files w) = Some s \<and> src \<noteq> dst \<and> \<not> blocked dst (files w)
           \<and> snd (cp_node s (lookup dst (files w))) = None
           \<and> files w' = put dst (fst (cp_node s (lookup dst (files w)))) (files w)"
  using assms
  by (auto simp: fs_cp_def split: option.splits if_splits prod.splits)

lemma directoryExists_eq:
  "directoryExists p w = (w, Inr (case lookup p (files w) of Some n \<Rightarrow> is_dir n | None \<Rightarrow> False))"
  by (auto simp: directoryExists_def fs_stat_def try_catch_def ret_def split: option.splits)

lemma fs_readdir_Inr:
  "fs_readdir flt p w = (w', Inr ents) \<Longrightarrow>
     w' = w \<and> (\<exists>es. lookup p (files w) = Some (Dir es) \<and> ents = map (\<lambda>(k, c). Dirent k (is_dir c)) es)"
  by (auto simp: fs_readdir_def split: option.splits node.splits)

lemma cp_entries_self:
  assumes "\<And>k c. (k, c) \<in> set es \<Longrightarrow> map_of ds k = Some c \<and> cp_node c (Some c) = (c, None)"
  shows "cp_entries es ds = (ds, None)"
  using assms
proof (induction es)
  case Nil
  then show ?case by simp
next
  case (Cons e es)
  obtain k c where e: "e = (k, c)" by (cases e)
  from Cons.prems[of k c] e have kc: "map_of ds k = Some c" "cp_node c (Some c) = (c, None)"
    by auto
  have "cp_entries es ds = (ds, None)"
    using Cons.prems by (intro Cons.IH) auto
  then show ?case using e kc by (simp add: update_triv)
qed

lemma cp_node_self: "wf_node s \<Longrightarrow> cp_node s (Some s) = (s, None)"
proof (induction s)
  case (File c)
  then show ?case by simp
next
  case (Dir es)
  have "cp_entries es es = (es, None)"
  proof (rule cp_entries_self)
    fix k c assume kc: "(k, c) \<in> set es"
    with Dir.prems have "wf_node c" "distinct (map fst es)" by auto
    moreover from kc have "c \<in> Basic_BNFs.snds (k, c)" by simp
    ultimately show "map_of es k = Some c \<and> cp_node c (Some c) = (c, None)"
      using Dir.IH[OF kc] kc by auto
  qed
  then show ?case by simp
qed

lemma apart_under:
  assumes "apart repo dest" "r \<noteq> []"
  shows "\<not> prefix (dest @ r) (repo @ q)" "\<not> prefix (repo @ q) (dest @ r)"
proof -
  show "\<not> prefix (dest @ r) (repo @ q)"
  proof
    assume "prefix (dest @ r) (repo @ q)"
    then have "prefix dest (repo @ q)" by (meson prefix_order.trans prefixI)
    then have "prefix dest repo \<or> prefix repo dest" by (rule prefix_append_cases)
    with assms show False by (auto simp: apart_def)
  qed
  show "\<not> prefix (repo @ q) (dest @ r)"
  proof
    assume "prefix (repo @ q) (dest @ r)"
    then have "prefix repo (dest @ r)" by (meson prefix_order.trans prefixI)
    then have "prefix repo dest \<or> prefix dest repo" by (rule prefix_append_cases)
    with assms show False by (auto simp: apart_def)
  qed
qed

lemma lookup_put_under:
  assumes "apart repo dest" "r \<noteq> []"
  shows "lookup repo (put (dest @ r) v n) = lookup repo n"
  using apart_under[OF assms, of "[]"] by (simp add: lookup_put_other)

lemma lookup_child: "lookup p n = Some (Dir es) \<Longrightarrow> lookup (p @ [k]) n = map_of es k"
  by (simp add: lookup_append split: option.splits)

lemma lookup_grandchild:
  "lookup p n = Some (Dir es) \<Longrightarrow> map_of es k = Some (Dir sub) \<Longrightarrow>
     lookup (p @ [k, t]) n = map_of sub t"
  by (simp add: lookup_append split: option.splits)

lemma lookup_put_child:
  assumes "lookup p n = Some (Dir ds)"
  shows "lookup p (put (p @ [k]) v n) = Some (Dir (AList.update k v ds))"
proof -
  have "put (p @ [k]) v n = put p (put [k] v (Dir ds)) n" using assms by (rule put_append)
  moreover have "\<not> blocked p n" using assms by (rule lookup_not_blocked)
  ultimately show ?thesis by (simp add: lookup_put_same)
qed

lemma lookup_put_grandchild:
  assumes "lookup p n = Some (Dir ds)" "map_of ds k = Some (Dir ts)"
  shows "lookup p (put (p @ [k, t]) v n) = Some (Dir (AList.update k (Dir (AList.update t v ts)) ds))"
proof -
  have "put (p @ [k, t]) v n = put p (put [k, t] v (Dir ds)) n" using assms(1) by (rule put_append)
  moreover have "\<not> blocked p n" using assms(1) by (rule lookup_not_blocked)
  ultimately show ?thesis using assms(2) by (simp add: lookup_put_same)
qed


lemma wf_child: "wf_node (Dir es) \<Longrightarrow> map_of es k = Some c \<Longrightarrow> wf_node c"
  by (fastforce dest: map_of_SomeD)

lemma wf_child_plain: "wf_node (Dir es) \<Longrightarrow> map_of es k = Some c \<Longrightarrow> plain_name k"
  by (fastforce dest: map_of_SomeD)

lemma is_dir_iff: "is_dir n = (\<exists>x. n = Dir x)"
  by (cases n) auto

lemma team_step_inv:
  assumes "\<And>t x. map_of tacc t = Some x \<Longrightarrow> map_of sub t = Some x"
    and "map_of (team_step sub tacc t) t' = Some x"
  shows "map_of sub t' = Some x"
  using assms by (auto simp: team_step_def update_conv' split: option.splits node.splits if_splits)

lemma copyTeam_step:
  assumes ok: "copyTeam flt (repo @ [k]) (dest @ [k]) k t w = (w', Inr u)"
    and plain: "plain_name t"
    and ap: "apart repo dest"
    and src: "lookup repo (files w) = Some (Dir es)" "map_of es k = Some (Dir sub)"
      "wf_node (Dir sub)"
    and dst: "lookup dest (files w) = Some (Dir acc)" "map_of acc k = Some (Dir tacc)"
    and inv: "\<And>t x. map_of tacc t = Some x \<Longrightarrow> map_of sub t = Some x"
  shows "lookup repo (files w') = Some (Dir es) \<and>
         lookup dest (files w') = Some (Dir (AList.update k (Dir (team_step sub tacc t)) acc))"
proof -
  have pj: "path_join (repo @ [k]) t = repo @ [k, t]" "path_join (dest @ [k]) t = dest @ [k, t]"
    using plain by (simp_all add: path_join_plain)
  have ls: "lookup (repo @ [k, t]) (files w) = map_of sub t"
    using src(1,2) by (rule lookup_grandchild)
  have ld: "lookup (dest @ [k, t]) (files w) = map_of tacc t"
    using dst by (rule lookup_grandchild)
  show ?thesis
  proof (cases "\<exists>x. map_of sub t = Some (Dir x)")
    case False
    then have "team_step sub tacc t = tacc"
      by (auto simp: team_step_def split: option.splits node.splits)
    moreover from False ok have "files w' = files w"
      by (auto simp: copyTeam_def pj directoryExists_eq ls bind_def logger_def is_dir_iff
          split: option.splits)
    ultimately show ?thesis using src dst by (simp add: update_triv)
  next
    case True
    then obtain x where x: "map_of sub t = Some (Dir x)" by blast
    then have ts: "team_step sub tacc t = AList.update t (Dir x) tacc"
      by (simp add: team_step_def)
    from src(3) x have wfx: "wf_node (Dir x)" by (rule wf_child)
    from ok x obtain v where cp: "fs_cp flt (repo @ [k, t]) (dest @ [k, t]) w = (v, Inr ())"
      and fv: "files w' = files v"
      by (auto simp: copyTeam_def pj directoryExists_eq ls bind_def seq_def logger_def
          copyRecursive_def split: prod.splits sum.splits)
    have "cp_node (Dir x) (map_of tacc t) = (Dir x, None)"
    proof (cases "map_of tacc t")
      case None
      then show ?thesis by simp
    next
      case (Some y)
      with inv x have "y = Dir x" by fastforce
      with Some wfx show ?thesis by (simp only: cp_node_self)
    qed
    with fs_cp_Inr[OF cp] ls ld x have "files v = put (dest @ [k, t]) (Dir x) (files w)"
      by auto
    with fv have fw: "files w' = put (dest @ [k, t]) (Dir x) (files w)" by simp
    have "lookup repo (files w') = lookup repo (files w)"
      unfolding fw using ap by (rule lookup_put_under) simp
    moreover have "lookup dest (files w') =
        Some (Dir (AList.update k (Dir (AList.update t (Dir x) tacc)) acc))"
      unfolding fw using dst by (rule lookup_put_grandchild)
    ultimately show ?thesis using src ts by simp
  qed
qed

lemma team_loop:
  assumes ok: "for_each (copyTeam flt (repo @ [k]) (dest @ [k]) k) ts w = (w', Inr u)"
    and plain: "\<forall>t\<in>set ts. plain_name t"
    and ap: "apart repo dest"
    and src: "lookup repo (files w) = Some (Dir es)" "map_of es k = Some (Dir sub)"
      "wf_node (Dir sub)"
    and dst: "lookup dest (files w) = Some (Dir acc)" "map_of acc k = Some (Dir tacc)"
    and inv: "\<And>t x. map_of tacc t = Some x \<Longrightarrow> map_of sub t = Some x"
  shows "lookup repo (files w') = Some (Dir es) \<and>
         lookup dest (files w') = Some (Dir (AList.update k (Dir (foldl (team_step sub) tacc ts)) acc))"
  using ok plain src(1) dst inv
proof (induction ts arbitrary: w acc tacc)
  case Nil
  then show ?case by (simp add: ret_def update_triv)
next
  case (Cons t ts)
  from Cons.prems(1) obtain v where
    st: "copyTeam flt (repo @ [k]) (dest @ [k]) k t w = (v, Inr ())"
    and rest: "for_each (copyTeam flt (repo @ [k]) (dest @ [k]) k) ts v = (w', Inr u)"
    by (auto dest!: seq_Inr)
  from Cons.prems(2) have pt: "plain_name t" and pts: "\<forall>t\<in>set ts. plain_name t" by auto
  let ?tacc = "team_step sub tacc t"
  let ?acc = "AList.update k (Dir ?tacc) acc"
  have step: "lookup repo (files v) = Some (Dir es) \<and> lookup dest (files v) = Some (Dir ?acc)"
    using st pt ap Cons.prems(3) src(2,3) Cons.prems(4,5) Cons.prems(6)
    by (rule copyTeam_step)
  have inv': "\<And>t' x. map_of ?tacc t' = Some x \<Longrightarrow> map_of sub t' = Some x"
    using Cons.prems(6) by (rule team_step_inv)
  have "lookup repo (files w') = Some (Dir es) \<and>
        lookup dest (files w') = Some (Dir (AList.update k (Dir (foldl (team_step sub) ?tacc ts)) ?acc))"
    using rest pts step inv' by (intro Cons.IH) (auto simp: update_conv')
  then show ?case by simp
qed

lemma entry_step_other:
  "k' \<noteq> k \<Longrightarrow> map_of (entry_step teams acc (k, c)) k' = map_of acc k'"
  by (simp add: entry_step_def update_conv')

lemma copyEntry_step:
  assumes ok: "copyEntry flt repo cfg (Dirent k (is_dir c)) w = (w', Inr u)"
    and cfg: "rulesFolderPath cfg = dest" "\<forall>t\<in>set (teamNames cfg). plain_name t"
    and ap: "apart repo dest"
    and src: "lookup repo (files w) = Some (Dir es)" "map_of es k = Some c" "wf_node (Dir es)"
    and dst: "lookup dest (files w) = Some (Dir acc)" "map_of acc k = None"
  shows "lookup repo (files w') = Some (Dir es) \<and>
         lookup dest (files w') = Some (Dir (entry_step (teamNames cfg) acc (k, c)))"
proof -
  have pk: "plain_name k" using src(3,2) by (rule wf_child_plain)
  have pj: "path_join repo k = repo @ [k]" "path_join dest k = dest @ [k]"
    using pk by (simp_all add: path_join_plain)
  have ls: "lookup (repo @ [k]) (files w) = Some c" using src(1,2) by (simp add: lookup_child)
  have ld: "lookup (dest @ [k]) (files w) = None" using dst by (simp add: lookup_child)
  consider (skip) "startsWith k ''.'' \<or> \<not> is_dir c"
    | (team) "\<not> startsWith k ''.''" "is_dir c" "startsWith k ''team''"
    | (full) "\<not> startsWith k ''.''" "is_dir c" "\<not> startsWith k ''team''"
    by blast
  then show ?thesis
  proof cases
    case skip
    with ok have "w' = w" by (auto simp: copyEntry_def ret_def)
    with skip src dst show ?thesis by (auto simp: entry_step_def)
  next
    case team
    then obtain sub where c: "c = Dir sub" by (auto simp: is_dir_iff)
    from ok team obtain v where
      mk: "fs_mkdir flt (dest @ [k]) w = (v, Inr ())"
      and loop: "for_each (copyTeam flt (repo @ [k]) (dest @ [k]) k) (teamNames cfg) v = (w', Inr u)"
      by (auto simp: copyEntry_def cfg(1) pj dest!: seq_Inr)
    from fs_mkdir_Inr(2)[OF mk ld] have fv: "files v = put (dest @ [k]) (Dir []) (files w)" .
    have r: "lookup repo (files v) = Some (Dir es)"
      unfolding fv using src(1) lookup_put_under[OF ap, of "[k]"] by simp
    have d: "lookup dest (files v) = Some (Dir (AList.update k (Dir []) acc))"
      unfolding fv using dst(1) by (rule lookup_put_child)
    have wfs: "wf_node (Dir sub)" using src(3,2) c wf_child by blast
    have "lookup repo (files w') = Some (Dir es) \<and>
          lookup dest (files w') = Some (Dir (AList.update k
             (Dir (foldl (team_step sub) [] (teamNames cfg))) (AList.update k (Dir []) acc)))"
      using loop cfg(2) ap r src(2)[unfolded c] wfs d
      by (rule team_loop) (simp_all add: update_conv')
    with team c show ?thesis by (simp add: entry_step_def)
  next
    case full
    from ok full obtain v where
      cp: "fs_cp flt (repo @ [k]) (dest @ [k]) w = (v, Inr ())" and fv: "files w' = files v"
      by (auto simp: copyEntry_def cfg(1) pj copyRecursive_def logger_def dest!: seq_Inr)
    from fs_cp_Inr[OF cp] ls ld have fw: "files v = put (dest @ [k]) c (files w)" by auto
    have "lookup repo (files w') = Some (Dir es)"
      unfolding fv fw using src(1) lookup_put_under[OF ap, of "[k]"] by simp
    moreover have "lookup dest (files w') = Some (Dir (AList.update k c acc))"
      unfolding fv fw using dst(1) by (rule lookup_put_child)
    ultimately show ?thesis using full by (simp add: entry_step_def)
  qed
qed

lemma entry_loop:
  assumes ok: "for_each (copyEntry flt repo cfg) (map (\<lambda>(k, c). Dirent k (is_dir c)) es') w = (w', Inr u)"
    and cfg: "rulesFolderPath cfg = dest" "\<forall>t\<in>set (teamNames cfg). plain_name t"
    and ap: "apart repo dest"
    and wf: "wf_node (Dir es)"
    and src: "lookup repo (files w) = Some (Dir es)"
    and sub: "set es' \<subseteq> set es" "distinct (map fst es')"
    and dst: "lookup dest (files w) = Some (Dir acc)" "\<forall>k\<in>fst ` set es'. map_of acc k = None"
  shows "lookup repo (files w') = Some (Dir es) \<and>
         lookup dest (files w') = Some (Dir (foldl (entry_step (teamNames cfg)) acc es'))"
  using ok src sub dst
proof (induction es' arbitrary: w acc)
  case Nil
  then show ?case by (simp add: ret_def)
next
  case (Cons e es')
  obtain k c where e: "e = (k, c)" by (cases e)
  from Cons.prems(1) e obtain v where
    st: "copyEntry flt repo cfg (Dirent k (is_dir c)) w = (v, Inr ())"
    and rest: "for_each (copyEntry flt repo cfg) (map (\<lambda>(k, c). Dirent k (is_dir c)) es') v = (w', Inr u)"
    by (auto dest!: seq_Inr)
  from wf have "distinct (map fst es)" by simp
  moreover from Cons.prems(3) e have "(k, c) \<in> set es" by auto
  ultimately have mk: "map_of es k = Some c" by simp
  from Cons.prems(6) e have nk: "map_of acc k = None" by simp
  let ?acc = "entry_step (teamNames cfg) acc (k, c)"
  have step: "lookup repo (files v) = Some (Dir es) \<and> lookup dest (files v) = Some (Dir ?acc)"
    using st cfg ap Cons.prems(2) mk wf Cons.prems(5) nk by (rule copyEntry_step)
  have fresh: "\<forall>k'\<in>fst ` set es'. map_of ?acc k' = None"
  proof
    fix k' assume k': "k' \<in> fst ` set es'"
    with Cons.prems(4) e have "k' \<noteq> k" by auto
    moreover from k' Cons.prems(6) have "map_of acc k' = None" by auto
    ultimately show "map_of ?acc k' = None" by (simp add: entry_step_other)
  qed
  have "lookup repo (files w') = Some (Dir es) \<and>
        lookup dest (files w') = Some (Dir (foldl (entry_step (teamNames cfg)) ?acc es'))"
    using rest step Cons.prems(3,4) fresh by (intro Cons.IH) auto
  then show ?case using e by simp
qed

lemma removeDestination_eq:
  assumes "flt (Rm p) = None" "p \<noteq> []" "removeDestination flt p w = (v, r)"
  shows "r = Inr () \<and> files v = (if blocked p (files w) then files w else del p (files w))"
  using assms
  by (auto simp: removeDestination_def fs_rm_def fs_error_def io_defs split: if_splits)

lemma apart_nonempty: "apart repo dest \<Longrightarrow> dest \<noteq> [] \<and> repo \<noteq> []"
  by (auto simp: apart_def)

lemma syncFiles_mirror:
  assumes ok: "syncFiles flt repo cfg w = (w', Inr u)"
    and cfg: "rulesFolderPath cfg = dest" "\<forall>t\<in>set (teamNames cfg). plain_name t"
    and ap: "apart repo dest"
    and rm: "flt (Rm dest) = None"
    and src: "lookup repo (files w) = Some (Dir es)"
    and wf: "wf_node (Dir es)"
  shows "lookup repo (files w') = Some (Dir es) \<and>
         lookup dest (files w') = Some (Dir (foldl (entry_step (teamNames cfg)) [] es))"
proof -
  from ok obtain w1 w2 w3 w4 where
    l1: "logger LInfo (''Starting file sync from '' @ show_path repo @ '' to '' @ show_path dest) w = (w1, Inr ())"
    and rd: "removeDestination flt dest w1 = (w2, Inr ())"
    and mk: "fs_mkdir flt dest w2 = (w3, Inr ())"
    and cr: "copyRulesFromRepo flt repo cfg w3 = (w4, Inr ())"
    and l2: "logger LInfo ''File sync completed'' w4 = (w', Inr u)"
    unfolding syncFiles_def cfg(1) by (auto dest!: seq_Inr)
  have f1: "files w1 = files w" using l1 by (auto simp: logger_def)
  have ne: "dest \<noteq> []" using ap by (simp add: apart_nonempty)
  from removeDestination_eq[OF rm ne rd] f1
  have f2: "files w2 = (if blocked dest (files w) then files w else del dest (files w))" by simp
  have nb: "\<not> blocked dest (files w2)" using mk by (rule fs_mkdir_Inr(1))
  have nb0: "\<not> blocked dest (files w)" using nb f2 by (auto split: if_splits)
  with f2 have f2': "files w2 = del dest (files w)" by simp
  have "lookup dest (files w2) = None" unfolding f2' using ne by (rule lookup_del_same)
  from fs_mkdir_Inr(2)[OF mk this] f2'
  have f3: "files w3 = put dest (Dir []) (del dest (files w))" by simp
  have d3: "lookup dest (files w3) = Some (Dir [])"
    unfolding f3 using nb f2' by (simp add: lookup_put_same)
  have r3: "lookup repo (files w3) = Some (Dir es)"
    unfolding f3 using ap src by (simp add: apart_def lookup_put_other lookup_del_other)
  from cr obtain ents where
    ents: "ents = map (\<lambda>(k, c). Dirent k (is_dir c)) es"
    and loop: "for_each (copyEntry flt repo cfg) ents w3 = (w4, Inr ())"
    unfolding copyRulesFromRepo_def using r3
    by (auto dest!: bind_Inr fs_readdir_Inr)
  from wf have dist: "distinct (map fst es)" by simp
  have "lookup repo (files w4) = Some (Dir es) \<and>
        lookup dest (files w4) = Some (Dir (foldl (entry_step (teamNames cfg)) [] es))"
    using loop[unfolded ents] cfg ap wf r3 _ dist d3 by (rule entry_loop) simp_all
  moreover have "files w' = files w4" using l2 by (auto simp: logger_def)
  ultimately show ?thesis by simp
qed

section \<open>The mirror as a listing\<close>

lemma map_of_team_step:
  "map_of (team_step sub acc t0) t =
     (if t = t0 \<and> (\<exists>x. map_of sub t = Some (Dir x)) then map_of sub t else map_of acc t)"
  by (auto simp: team_step_def update_conv' split: option.splits node.splits)

lemma map_of_team_fold:
  "map_of (foldl (team_step sub) acc ts) t =
     (if t \<in> set ts \<and> (\<exists>x. map_of sub t = Some (Dir x)) then map_of sub t else map_of acc t)"
  by (induction ts arbitrary: acc) (auto simp: map_of_team_step)

lemma distinct_team_fold:
  "distinct (map fst acc) \<Longrightarrow> distinct (map fst (foldl (team_step sub) acc ts))"
  by (induction ts arbitrary: acc)
     (auto simp: team_step_def distinct_update split: option.splits node.splits)

lemma distinct_entry_fold:
  "distinct (map fst acc) \<Longrightarrow> distinct (map fst (foldl (entry_step teams) acc es))"
  by (induction es arbitrary: acc) (auto simp: entry_step_def distinct_update)

lemma map_of_entry_fold:
  "distinct (map fst es) \<Longrightarrow>
   map_of (foldl (entry_step teams) acc es) k =
     (case map_of es k of
        None \<Rightarrow> map_of acc k
      | Some c \<Rightarrow>
          if startsWith k ''.'' \<or> \<not> is_dir c then map_of acc k
          else if startsWith k ''team''
          then Some (Dir (foldl (team_step (entries c)) [] teams))
          else Some c)"
proof (induction es arbitrary: acc)
  case Nil
  then show ?case by simp
next
  case (Cons e es)
  obtain k0 c0 where e: "e = (k0, c0)" by (cases e)
  from Cons.prems e have d: "distinct (map fst es)" and n: "k0 \<notin> fst ` set es" by auto
  from n have m0: "map_of es k0 = None" by (simp add: map_of_eq_None_iff)
  show ?case
  proof (cases "k = k0")
    case True
    then show ?thesis using Cons.IH[OF d] e m0 by (simp add: entry_step_def update_conv')
  next
    case False
    then show ?thesis using Cons.IH[OF d] e
      by (simp add: entry_step_other split: option.splits)
  qed
qed

lemma mirror_of_fold:
  assumes "distinct (map fst es)"
  shows "mirror_of es teams (foldl (entry_step teams) [] es)"
  unfolding mirror_of_def
proof (intro conjI allI)
  show "distinct (map fst (foldl (entry_step teams) [] es))"
    by (simp add: distinct_entry_fold)
next
  fix k
  have dt: "\<And>sub. distinct (map fst (foldl (team_step sub) [] teams))"
    by (simp add: distinct_team_fold)
  show "case map_of es k of
          Some (Dir sub) \<Rightarrow>
            if startsWith k ''.'' then map_of (foldl (entry_step teams) [] es) k = None
            else if startsWith k ''team'' then
              (\<exists>ts. map_of (foldl (entry_step teams) [] es) k = Some (Dir ts) \<and>
                 distinct (map fst ts) \<and>
                 (\<forall>t. map_of ts t =
                    (if t \<in> set teams \<and> (\<exists>x. map_of sub t = Some (Dir x))
                     then map_of sub t else None)))
            else map_of (foldl (entry_step teams) [] es) k = Some (Dir sub)
        | _ \<Rightarrow> map_of (foldl (entry_step teams) [] es) k = None"
    by (auto simp: map_of_entry_fold[OF assms] map_of_team_fold dt split: option.splits node.splits)
qed

section \<open>The phases of syncFiles\<close>

lemma del_del: "del p (del p n) = del p n"
  by (induction p n rule: del.induct)
     (auto simp: delete_idem update_conv' split: node.splits option.splits)

lemma syncFiles_after_rm:
  assumes "flt (Rm (rulesFolderPath config)) = None" "rulesFolderPath config \<noteq> []"
    and "\<not> blocked (rulesFolderPath config) (files w)"
  shows "syncFiles flt repoPath config w =
           seq (fs_mkdir flt (rulesFolderPath config))
             (seq (copyRulesFromRepo flt repoPath config) (logger LInfo ''File sync completed''))
             (w\<lparr>files := del (rulesFolderPath config) (files w),
                logs := logs w
                  @ [(LInfo, ''Starting file sync from '' @ show_path repoPath @ '' to ''
                               @ show_path (rulesFolderPath config)),
                     (LDebug, ''Removing destination directory entirely''),
                     (LDebug, ''Destination directory removed'')]\<rparr>)"
  using assms
  by (simp add: syncFiles_def removeDestination_def fs_rm_def seq_def bind_def try_catch_def
      logger_def)

lemma del_blocked: "blocked p n \<Longrightarrow> del (p @ r) n = n"
proof (induction p arbitrary: n)
  case Nil
  then show ?case by simp
next
  case (Cons x xs)
  show ?case
  proof (cases n)
    case (File c)
    then show ?thesis by (cases "xs @ r") simp_all
  next
    case (Dir es)
    with Cons.prems obtain c where c: "map_of es x = Some c" "blocked xs c"
      by (auto split: option.splits)
    then have "xs \<noteq> []" by auto
    then obtain y ys where ys: "xs @ r = y # ys" by (cases xs) auto
    from Cons.IH[OF c(2)] have "del (y # ys) c = c" by (simp add: ys)
    with Dir c ys show ?thesis by (simp add: update_triv)
  qed
qed

lemma rm_partial_blocked:
  "blocked p n \<Longrightarrow> foldl (\<lambda>n r. del (p @ r) n) n rs = n"
  by (induction rs) (simp_all add: del_blocked)

lemma syncFiles_blocked:
  assumes "blocked (rulesFolderPath config) (files w)"
  shows "snd (syncFiles flt repoPath config w) \<noteq> Inr u"
proof -
  have "\<exists>v. removeDestination flt p v' = (v, Inr ()) \<and> files v = files v'
          \<or> \<not> blocked p (files v')" for p v'
    by (auto simp: removeDestination_def fs_rm_def seq_def bind_def try_catch_def logger_def
        ret_def rm_partial_blocked split: option.splits)
  show ?thesis
  proof
    assume "snd (syncFiles flt repoPath config w) = Inr u"
    then obtain w' where "syncFiles flt repoPath config w = (w', Inr u)"
      by (metis prod.collapse)
    then obtain w1 w2 w3 where
      l1: "logger LInfo (''Starting file sync from '' @ show_path repoPath @ '' to ''
             @ show_path (rulesFolderPath config)) w = (w1, Inr ())"
      and rd: "removeDestination flt (rulesFolderPath config) w1 = (w2, Inr ())"
      and mk: "fs_mkdir flt (rulesFolderPath config) w2 = (w3, Inr ())"
      unfolding syncFiles_def by (auto dest!: seq_Inr)
    have f1: "files w1 = files w" using l1 by (auto simp: logger_def)
    have "files w2 = files w1"
      using rd assms f1
      by (auto simp: removeDestination_def fs_rm_def seq_def bind_def try_catch_def logger_def
          ret_def rm_partial_blocked split: option.splits if_splits)
    with f1 assms have "blocked (rulesFolderPath config) (files w2)" by simp
    with fs_mkdir_Inr(1)[OF mk] show False by simp
  qed
qed

section \<open>Operations that depend on the file tree alone\<close>

lemma tree_onlyI:
  "(\<And>w v. files w = files v \<Longrightarrow> files (fst (m w)) = files (fst (m v)) \<and> snd (m w) = snd (m v))
   \<Longrightarrow> tree_only m"
  unfolding tree_only_def by blast

lemma tree_onlyD:
  "tree_only m \<Longrightarrow> files w = files v \<Longrightarrow>
     files (fst (m w)) = files (fst (m v)) \<and> snd (m w) = snd (m v)"
  unfolding tree_only_def by blast

lemma tree_only_ret: "tree_only (ret x)"
  by (simp add: tree_only_def ret_def)

lemma tree_only_throw: "tree_only (throw e)"
  by (simp add: tree_only_def throw_def)

lemma tree_only_logger: "tree_only (logger l m)"
  by (simp add: tree_only_def logger_def)

lemma tree_only_show_ui: "tree_only (show_ui u)"
  by (simp add: tree_only_def show_ui_def)

lemma tree_only_bind:
  assumes "tree_only m" "\<And>x. tree_only (k x)"
  shows "tree_only (bind m k)"
proof (rule tree_onlyI)
  fix w v :: world assume fv: "files w = files v"
  from tree_onlyD[OF assms(1) fv] have m: "files (fst (m w)) = files (fst (m v))" "snd (m w) = snd (m v)"
    by auto
  obtain w1 r where mw: "m w = (w1, r)" by (cases "m w")
  obtain v1 r' where mv: "m v = (v1, r')" by (cases "m v")
  from m mw mv have r: "r' = r" and f1: "files w1 = files v1" by simp_all
  show "files (fst (bind m k w)) = files (fst (bind m k v)) \<and> snd (bind m k w) = snd (bind m k v)"
  proof (cases r)
    case (Inl e)
    with mw mv r f1 show ?thesis by (simp add: bind_def)
  next
    case (Inr x)
    with mw mv r tree_onlyD[OF assms(2)[of x] f1] show ?thesis by (simp add: bind_def)
  qed
qed

lemma tree_only_seq: "tree_only m \<Longrightarrow> tree_only k \<Longrightarrow> tree_only (seq m k)"
  unfolding seq_def by (rule tree_only_bind)

lemma tree_only_try_catch:
  assumes "tree_only m" "\<And>e. tree_only (h e)"
  shows "tree_only (try_catch m h)"
proof (rule tree_onlyI)
  fix w v :: world assume fv: "files w = files v"
  from tree_onlyD[OF assms(1) fv] have m: "files (fst (m w)) = files (fst (m v))" "snd (m w) = snd (m v)"
    by auto
  obtain w1 r where mw: "m w = (w1, r)" by (cases "m w")
  obtain v1 r' where mv: "m v = (v1, r')" by (cases "m v")
  from m mw mv have r: "r' = r" and f1: "files w1 = files v1" by simp_all
  show "files (fst (try_catch m h w)) = files (fst (try_catch m h v))
      \<and> snd (try_catch m h w) = snd (try_catch m h v)"
  proof (cases r)
    case (Inl e)
    with mw mv r tree_onlyD[OF assms(2)[of e] f1] show ?thesis by (simp add: try_catch_def)
  next
    case (Inr x)
    with mw mv r f1 show ?thesis by (simp add: try_catch_def)
  qed
qed

lemma tree_only_try_finally:
  assumes "tree_only m" "tree_only f"
  shows "tree_only (try_finally m f)"
proof (rule tree_onlyI)
  fix w v :: world assume fv: "files w = files v"
  from tree_onlyD[OF assms(1) fv] have m: "files (fst (m w)) = files (fst (m v))" "snd (m w) = snd (m v)"
    by auto
  obtain w1 r where mw: "m w = (w1, r)" by (cases "m w")
  obtain v1 r' where mv: "m v = (v1, r')" by (cases "m v")
  from m mw mv have r: "r' = r" and f1: "files w1 = files v1" by simp_all
  obtain w2 s where fw: "f w1 = (w2, s)" by (cases "f w1")
  obtain v2 s' where fv1: "f v1 = (v2, s')" by (cases "f v1")
  from tree_onlyD[OF assms(2) f1] fw fv1 have s: "s' = s" and f2: "files w2 = files v2"
    by simp_all
  show "files (fst (try_finally m f w)) = files (fst (try_finally m f v))
      \<and> snd (try_finally m f w) = snd (try_finally m f v)"
    using mw mv r fw fv1 s f2 by (cases s) (simp_all add: try_finally_def)
qed

lemma tree_only_if:
  "(b \<Longrightarrow> tree_only m) \<Longrightarrow> (\<not> b \<Longrightarrow> tree_only k) \<Longrightarrow> tree_only (if b then m else k)"
  by simp

lemma tree_only_for_each: "(\<And>x. tree_only (f x)) \<Longrightarrow> tree_only (for_each f xs)"
  by (induction xs) (simp_all add: tree_only_ret tree_only_seq)

lemma tree_only_fs_rm: "tree_only (fs_rm flt p)"
  by (auto simp: tree_only_def fs_rm_def split: option.splits)

lemma tree_only_fs_mkdir: "tree_only (fs_mkdir flt p)"
  by (auto simp: tree_only_def fs_mkdir_def split: option.splits node.splits)

lemma tree_only_fs_readdir: "tree_only (fs_readdir flt p)"
  by (auto simp: tree_only_def fs_readdir_def split: option.splits node.splits)

lemma tree_only_fs_stat: "tree_only (fs_stat p)"
  by (auto simp: tree_only_def fs_stat_def split: option.splits)

lemma tree_only_fs_cp: "tree_only (fs_cp flt p q)"
  by (auto simp: tree_only_def fs_cp_def split: option.splits prod.splits)

lemma tree_only_syncFiles: "tree_only (syncFiles flt repoPath config)"
  unfolding syncFiles_def removeDestination_def copyRulesFromRepo_def copyEntry_def
    copyTeam_def copyRecursive_def directoryExists_def
  by (intro tree_only_seq tree_only_bind tree_only_try_catch tree_only_for_each tree_only_if
      tree_only_logger tree_only_ret tree_only_fs_rm tree_only_fs_mkdir tree_only_fs_readdir
      tree_only_fs_stat tree_only_fs_cp)

lemma tree_only_git: "tree_only (git r)"
  by (cases r) (simp_all add: git_def tree_only_ret tree_only_throw)

lemma tree_only_checkout: "tree_only (checkout r p)"
  by (auto simp: tree_only_def checkout_def split: sum.splits)

lemma tree_only_case_option:
  "(x = None \<Longrightarrow> tree_only m) \<Longrightarrow> (\<And>y. x = Some y \<Longrightarrow> tree_only (k y))
   \<Longrightarrow> tree_only (case x of None \<Rightarrow> m | Some y \<Rightarrow> k y)"
  by (cases x) simp_all

lemma tree_only_ensureRepository: "tree_only (ensureRepository e h config)"
  unfolding ensureRepository_def acquireLock_def releaseLock_def repositoryExists_def
    cloneRepository_def fetchRepository_def
  by (intro tree_only_seq tree_only_bind tree_only_try_catch tree_only_try_finally
      tree_only_if tree_only_case_option
      tree_only_logger tree_only_ret tree_only_throw tree_only_fs_mkdir tree_only_fs_stat
      tree_only_git tree_only_checkout)

section \<open>Operations that leave an observation alone\<close>

lemma preservesI: "(\<And>w. f (fst (m w)) = f w) \<Longrightarrow> preserves f m"
  unfolding preserves_def by blast

lemma preservesD: "preserves f m \<Longrightarrow> f (fst (m w)) = f w"
  unfolding preserves_def by blast

lemma preserves_ret: "preserves f (ret x)"
  by (simp add: preserves_def ret_def)

lemma preserves_throw: "preserves f (throw e)"
  by (simp add: preserves_def throw_def)

lemma preserves_bind:
  assumes "preserves f m" "\<And>x. preserves f (k x)"
  shows "preserves f (bind m k)"
proof (rule preservesI)
  fix w
  show "f (fst (bind m k w)) = f w"
    using preservesD[OF assms(1), of w] preservesD[OF assms(2)]
    by (cases "m w") (auto simp: bind_def split: sum.splits)
qed

lemma preserves_seq: "preserves f m \<Longrightarrow> preserves f k \<Longrightarrow> preserves f (seq m k)"
  unfolding seq_def by (rule preserves_bind)

lemma preserves_try_catch:
  assumes "preserves f m" "\<And>e. preserves f (h e)"
  shows "preserves f (try_catch m h)"
proof (rule preservesI)
  fix w
  show "f (fst (try_catch m h w)) = f w"
    using preservesD[OF assms(1), of w] preservesD[OF assms(2)]
    by (cases "m w") (auto simp: try_catch_def split: sum.splits)
qed

lemma preserves_try_finally:
  assumes "preserves f m" "preserves f k"
  shows "preserves f (try_finally m k)"
proof (rule preservesI)
  fix w
  show "f (fst (try_finally m k w)) = f w"
    using preservesD[OF assms(1), of w] preservesD[OF assms(2), of "fst (m w)"]
    by (cases "m w"; cases "k (fst (m w))") (auto simp: try_finally_def split: sum.splits)
qed

lemma preserves_if:
  "(b \<Longrightarrow> preserves f m) \<Longrightarrow> (\<not> b \<Longrightarrow> preserves f k) \<Longrightarrow> preserves f (if b then m else k)"
  by simp

lemma preserves_case_option:
  "(x = None \<Longrightarrow> preserves f m) \<Longrightarrow> (\<And>y. x = Some y \<Longrightarrow> preserves f (k y))
   \<Longrightarrow> preserves f (case x of None \<Rightarrow> m | Some y \<Rightarrow> k y)"
  by (cases x) simp_all

lemma preserves_for_each: "(\<And>x. preserves f (g x)) \<Longrightarrow> preserves f (for_each g xs)"
  by (induction xs) (simp_all add: preserves_ret preserves_seq)

lemma preserves_git: "preserves f (git r)"
  by (cases r) (simp_all add: git_def preserves_ret preserves_throw)

text \<open>What is shown to the user, and the settings, are left alone by the file system and by git.\<close>

lemma preserves_shown_logger: "preserves shown (logger l m)"
  by (simp add: preserves_def logger_def)

lemma preserves_shown_fs:
  "preserves shown (fs_rm flt p)" "preserves shown (fs_mkdir flt p)"
  "preserves shown (fs_readdir flt p)" "preserves shown (fs_stat p)"
  "preserves shown (fs_cp flt p q)" "preserves shown (checkout r p)"
  by (auto simp: preserves_def fs_rm_def fs_mkdir_def fs_readdir_def fs_stat_def fs_cp_def
      checkout_def split: option.splits node.splits prod.splits sum.splits)

lemmas preserves_combinators = preserves_seq preserves_bind preserves_try_catch
  preserves_try_finally preserves_for_each preserves_if preserves_case_option
  preserves_ret preserves_throw preserves_git

lemma preserves_shown_syncFiles: "preserves shown (syncFiles flt repoPath config)"
  unfolding syncFiles_def removeDestination_def copyRulesFromRepo_def copyEntry_def
    copyTeam_def copyRecursive_def directoryExists_def
  by (intro preserves_combinators preserves_shown_logger preserves_shown_fs)

lemma preserves_shown_ensureRepository: "preserves shown (ensureRepository e h config)"
  unfolding ensureRepository_def acquireLock_def releaseLock_def repositoryExists_def
    cloneRepository_def fetchRepository_def
  by (intro preserves_combinators preserves_shown_logger preserves_shown_fs)

section \<open>What repository access leaves alone\<close>

lemma lookup_put_fresh:
  assumes "lookup p n = None" "\<not> blocked p n" "\<not> prefix q p"
  shows "lookup q (put p (Dir []) n) = lookup q n"
proof (cases "prefix p q")
  case True
  then obtain r where q: "q = p @ r" by (auto simp: prefix_def)
  with assms(3) have "r \<noteq> []" by auto
  then show ?thesis
    using assms(1,2) q by (simp add: lookup_append lookup_put_same lookup_Dir_Nil)
next
  case False
  with assms(3) show ?thesis by (simp add: lookup_put_other)
qed

lemma preserves_lookup_logger: "preserves (\<lambda>w. lookup q (files w)) (logger l m)"
  by (simp add: preserves_def logger_def)

lemma preserves_lookup_stat: "preserves (\<lambda>w. lookup q (files w)) (fs_stat p)"
  by (simp add: preserves_def fs_stat_def split: option.splits)

lemma preserves_lookup_mkdir:
  "\<not> prefix q p \<Longrightarrow> preserves (\<lambda>w. lookup q (files w)) (fs_mkdir flt p)"
  by (auto simp: preserves_def fs_mkdir_def lookup_put_fresh split: option.splits node.splits)

lemma preserves_lookup_checkout:
  "apart p q \<Longrightarrow> preserves (\<lambda>w. lookup q (files w)) (checkout r p)"
  by (auto simp: preserves_def checkout_def apart_def lookup_put_other split: sum.splits)

lemma not_prefix_butlast: "\<not> prefix q p \<Longrightarrow> \<not> prefix q (butlast p)"
  by (metis prefix_order.trans prefixeq_butlast)

lemma preserves_lookup_ensureRepository:
  assumes "apart (getRepositoryPath h config) q"
  shows "preserves (\<lambda>w. lookup q (files w)) (ensureRepository e h config)"
proof -
  have np: "\<not> prefix q (path_dirname (getRepositoryPath h config))"
    using assms unfolding path_dirname_def apart_def by (intro not_prefix_butlast) simp
  show ?thesis
    unfolding ensureRepository_def acquireLock_def releaseLock_def repositoryExists_def
      cloneRepository_def fetchRepository_def
    by (intro preserves_combinators preserves_lookup_logger preserves_lookup_stat
        preserves_lookup_mkdir[OF np] preserves_lookup_checkout[OF assms])
qed

lemma getConfig_cong: "vs w = vs v \<Longrightarrow> getConfig w = getConfig v"
  unfolding getConfig_def by (erule subst) (rule refl)



text \<open>The fallback on the cached repository.\<close>

lemma hasExistingContent_eq:
  "hasExistingContent p w = (w, Inr (\<exists>x. lookup p (files w) = Some (Dir x)))"
  by (auto simp: hasExistingContent_def fs_stat_def try_catch_def ret_def is_dir_iff
      split: option.splits)

lemma useLocalCopy_ret:
  "useLocalCopy e h (ret ()) none failed v =
     (if \<exists>x. lookup (getRepositoryPath h (getConfig v)) (files v) = Some (Dir x) then
        (case syncFiles (fs_faults e) (getRepositoryPath h (getConfig v)) (getConfig v) v of
           (v1, Inr u) \<Rightarrow> v1\<lparr>logs := logs v1 @ [(LInfo, ''Using existing cached rules'')]\<rparr>
         | (v1, Inl err) \<Rightarrow>
             v1\<lparr>logs := logs v1 @ [(LError, ''Fallback to cached rules failed '' @ show_error err)],
                shown := shown v1 @ [WarningMessage failed []]\<rparr>)
      else v\<lparr>shown := shown v @ [WarningMessage none []]\<rparr>)"
  by (simp add: useLocalCopy_def hasExistingContent_eq try_catch_def bind_def seq_def
      logger_def show_ui_def ret_def split: prod.splits sum.splits)


text \<open>A fetch that fails while a clone is cached.\<close>

lemma lookup_above:
  assumes "lookup (p @ q) n = Some x" "q \<noteq> []"
  shows "\<exists>es. lookup p n = Some (Dir es)"
proof -
  from assms(1) obtain m where m: "lookup p n = Some m" "lookup q m = Some x"
    by (auto simp: lookup_append split: option.splits)
  from assms(2) m(2) show ?thesis using m(1) by (cases q; cases m) auto
qed

lemma mkdir_existing:
  assumes "flt (Mkdir p) = None" "lookup p (files w) = Some (Dir es)"
  shows "fs_mkdir flt p w = (w, Inr ())"
  using assms lookup_not_blocked[OF assms(2)] by (simp add: fs_mkdir_def)

lemma repositoryExists_eq:
  "repositoryExists p w = (w, Inr (\<exists>g. lookup (p @ [''.git'']) (files w) = Some (Dir g)))"
  by (auto simp: repositoryExists_def fs_stat_def try_catch_def ret_def is_dir_iff
      path_join_plain plain_name_def split: option.splits)

lemma fetchRepository_offline:
  assumes "lookup (repoPath @ [''.git'']) (files w) = Some (Dir g)"
    and "revparse_head e = Inr c" "fetch_result e = Some m"
  shows "fetchRepository e config repoPath w =
           (w\<lparr>logs := logs w
                  @ [(LError, ''Failed to fetch repository updates '' @ show_error (Error m None None)),
                     (LWarn, ''Using existing cached copy due to fetch failure'')]\<rparr>,
            Inr ())"
  using assms
  by (simp add: fetchRepository_def repositoryExists_eq git_def try_catch_def bind_def seq_def
      ret_def throw_def logger_def)

lemma ensureRepository_offline:
  assumes "lookup (getRepositoryPath h config @ [''.git'']) (files w) = Some (Dir g)"
    and "fs_faults e (Mkdir (path_dirname (getRepositoryPath h config))) = None"
    and "lock_result e = None"
    and "revparse_head e = Inr c" "fetch_result e = Some m"
    and "revparse_abbrev e = Inr b"
  shows "\<exists>w1. ensureRepository e h config w
             = (w1, Inr (getRepositoryPath h config, if branch config = [] then Some (trim b) else None))
           \<and> files w1 = files w \<and> shown w1 = shown w \<and> vs w1 = vs w
           \<and> (LWarn, ''Using existing cached copy due to fetch failure'') \<in> set (logs w1)"
proof -
  let ?p = "getRepositoryPath h config"
  have "\<exists>es. lookup (butlast ?p) (files w) = Some (Dir es)"
  proof (cases "?p = []")
    case True
    with assms(1) show ?thesis using lookup_above[of "[]" "[''.git'']"] by simp
  next
    case False
    then have "?p @ [''.git''] = butlast ?p @ [last ?p, ''.git'']" by simp
    with assms(1) show ?thesis using lookup_above[of "butlast ?p" "[last ?p, ''.git'']"] by simp
  qed
  then obtain es where "lookup (path_dirname ?p) (files w) = Some (Dir es)"
    by (auto simp: path_dirname_def)
  with assms(2) have mk: "fs_mkdir (fs_faults e) (path_dirname ?p) w = (w, Inr ())"
    by (rule mkdir_existing[where flt = "fs_faults e"])
  have ex: "repositoryExists ?p w = (w, Inr True)"
    using assms(1) by (simp add: repositoryExists_eq)
  let ?w0 = "w\<lparr>logs := logs w @ [(LInfo, ''Repository exists, fetching updates'')]\<rparr>"
  have "lookup (?p @ [''.git'']) (files ?w0) = Some (Dir g)" using assms(1) by simp
  note fe = fetchRepository_offline[OF this assms(4,5), of config]
  show ?thesis
    using mk ex fe assms(3,6)
    by (simp add: ensureRepository_def acquireLock_def releaseLock_def try_finally_def
        git_def seq_def bind_def ret_def logger_def split: option.splits)
qed


lemma setBranchDefault_ok:
  assumes "update_setting e = None"
  shows "\<exists>v. setBranchDefault e b w = (v, Inr ()) \<and> files v = files w \<and> shown v = shown w"
  using assms by (simp add: setBranchDefault_def seq_def bind_def logger_def ret_def)

section \<open>Operations that show no modal dialog\<close>

lemma quietI:
  "(\<And>w. \<exists>xs. shown (fst (m w)) = shown w @ xs \<and> list_all (\<lambda>u. \<not> is_modal u) xs) \<Longrightarrow> quiet m"
  unfolding quiet_def by blast

lemma quietD:
  "quiet m \<Longrightarrow> \<exists>xs. shown (fst (m w)) = shown w @ xs \<and> list_all (\<lambda>u. \<not> is_modal u) xs"
  unfolding quiet_def by blast

lemma preserves_quiet: "preserves shown m \<Longrightarrow> quiet m"
  unfolding quiet_def preserves_def by simp

lemma quiet_ret: "quiet (ret x)"
  by (simp add: quiet_def ret_def)

lemma quiet_throw: "quiet (throw e)"
  by (simp add: quiet_def throw_def)

lemma quiet_logger: "quiet (logger l m)"
  by (simp add: quiet_def logger_def)

lemma quiet_show_ui: "\<not> is_modal u \<Longrightarrow> quiet (show_ui u)"
  by (simp add: quiet_def show_ui_def)

lemma quiet_bind:
  assumes "quiet m" "\<And>x. quiet (k x)"
  shows "quiet (bind m k)"
proof (rule quietI)
  fix w
  obtain w1 r where mw: "m w = (w1, r)" by (cases "m w")
  from quietD[OF assms(1), of w] mw obtain xs where
    xs: "shown w1 = shown w @ xs" "list_all (\<lambda>u. \<not> is_modal u) xs" by auto
  show "\<exists>xs. shown (fst (bind m k w)) = shown w @ xs \<and> list_all (\<lambda>u. \<not> is_modal u) xs"
  proof (cases r)
    case (Inl e)
    with mw xs show ?thesis by (simp add: bind_def)
  next
    case (Inr x)
    from quietD[OF assms(2), of x w1] obtain ys where
      "shown (fst (k x w1)) = shown w1 @ ys" "list_all (\<lambda>u. \<not> is_modal u) ys" by auto
    with Inr mw xs show ?thesis by (intro exI[of _ "xs @ ys"]) (simp add: bind_def)
  qed
qed

lemma quiet_seq: "quiet m \<Longrightarrow> quiet k \<Longrightarrow> quiet (seq m k)"
  unfolding seq_def by (rule quiet_bind)

lemma quiet_try_catch:
  assumes "quiet m" "\<And>e. quiet (h e)"
  shows "quiet (try_catch m h)"
proof (rule quietI)
  fix w
  obtain w1 r where mw: "m w = (w1, r)" by (cases "m w")
  from quietD[OF assms(1), of w] mw obtain xs where
    xs: "shown w1 = shown w @ xs" "list_all (\<lambda>u. \<not> is_modal u) xs" by auto
  show "\<exists>xs. shown (fst (try_catch m h w)) = shown w @ xs \<and> list_all (\<lambda>u. \<not> is_modal u) xs"
  proof (cases r)
    case (Inr x)
    with mw xs show ?thesis by (simp add: try_catch_def)
  next
    case (Inl e)
    from quietD[OF assms(2), of e w1] obtain ys where
      "shown (fst (h e w1)) = shown w1 @ ys" "list_all (\<lambda>u. \<not> is_modal u) ys" by auto
    with Inl mw xs show ?thesis by (intro exI[of _ "xs @ ys"]) (simp add: try_catch_def)
  qed
qed

lemma quiet_if: "(b \<Longrightarrow> quiet m) \<Longrightarrow> (\<not> b \<Longrightarrow> quiet k) \<Longrightarrow> quiet (if b then m else k)"
  by simp

lemma quiet_case_option:
  "(x = None \<Longrightarrow> quiet m) \<Longrightarrow> (\<And>y. x = Some y \<Longrightarrow> quiet (k y))
   \<Longrightarrow> quiet (case x of None \<Rightarrow> m | Some y \<Rightarrow> k y)"
  by (cases x) simp_all

lemma quiet_case_prod: "(\<And>a b. quiet (f a b)) \<Longrightarrow> quiet (case x of (a, b) \<Rightarrow> f a b)"
  by (cases x) simp

lemma quiet_setBranchDefault: "quiet (setBranchDefault e b)"
  by (rule preserves_quiet)
     (simp add: preserves_def setBranchDefault_def seq_def bind_def logger_def ret_def
        split: option.splits)

lemma quiet_notConfiguredPrompt: "quiet (notConfiguredPrompt e)"
  unfolding notConfiguredPrompt_def
  by (intro quiet_seq quiet_if quiet_show_ui quiet_ret) simp_all

lemma quiet_sync_body:
  "quiet (try_catch
            (seq (logger LInfo l)
               (bind (ensureRepository e h config) (\<lambda>(repoPath, actualBranch).
                  seq (case actualBranch of
                         None \<Rightarrow> ret ()
                       | Some b \<Rightarrow> if b \<noteq> [] then setBranchDefault e b else ret ())
                    (seq (syncFiles (fs_faults e) repoPath config)
                       (logger LInfo ''Rules sync completed successfully'')))))
            (\<lambda>error. seq (logger LError (''Sync failed '' @ show_error error)) (throw error)))"
  by (intro quiet_try_catch quiet_seq quiet_bind quiet_case_prod quiet_case_option quiet_if
      quiet_logger quiet_ret quiet_throw quiet_setBranchDefault
      preserves_quiet[OF preserves_shown_ensureRepository]
      preserves_quiet[OF preserves_shown_syncFiles])

lemma quiet_syncRules: "quiet (syncRules e h)"
proof (rule quietI)
  fix w
  have inv: "quiet (seq (logger LWarn a) (show_ui (WarningMessage b [])))" for a b
    by (intro quiet_seq quiet_logger quiet_show_ui) simp
  show "\<exists>xs. shown (fst (syncRules e h w)) = shown w @ xs \<and> list_all (\<lambda>u. \<not> is_modal u) xs"
    using quietD[OF quiet_notConfiguredPrompt, of e w] quietD[OF inv, of _ _ w]
      quietD[OF quiet_sync_body, of _ e h "getConfig w" w]
    by (simp add: syncRules_def)
qed

lemma shown_setupPeriodicSync [simp]: "shown (setupPeriodicSync h w) = shown w"
  by (simp add: setupPeriodicSync_def logger_def)

lemma shown_log_lines [simp]: "shown (log_lines ls w) = shown w"
  by (simp add: log_lines_def)


lemma quiet_useLocalCopy:
  assumes "quiet used"
  shows "\<exists>xs. shown (useLocalCopy e h used none failed v) = shown v @ xs
             \<and> list_all (\<lambda>u. \<not> is_modal u) xs"
  unfolding useLocalCopy_def
  by (intro quietD quiet_try_catch quiet_bind quiet_seq quiet_if quiet_logger assms
      quiet_show_ui preserves_quiet[OF preserves_shown_syncFiles])
     (simp_all add: hasExistingContent_def quiet_try_catch quiet_ret
        preserves_quiet[OF preserves_shown_fs(4)])


section \<open>The initial sync and its retries\<close>

lemma quiet_prefix: "quiet m \<Longrightarrow> prefix (shown w) (shown (fst (m w)))"
  using quietD[of m w] by auto

lemma chain_grows:
  "performInitialSync h envs w = Some w' \<Longrightarrow> prefix (shown w) (shown w')"
  "handleSyncError h error isFirstTime e es v = Some v' \<Longrightarrow> prefix (shown v) (shown v')"
proof (induction h envs w and h error isFirstTime e es v arbitrary: w' and v'
    rule: performInitialSync_handleSyncError.induct)
  case (1 h w)
  then show ?case by simp
next
  case (2 h e es w)
  let ?w0 = "fst (logger LInfo ''Starting initial sync...'' w)"
  obtain w1 r where sr: "syncRules e h ?w0 = (w1, r)" by (cases "syncRules e h ?w0")
  have p1: "prefix (shown w) (shown w1)"
    using quiet_prefix[OF quiet_syncRules, of ?w0 e h] sr by (simp add: logger_def)
  show ?case
  proof (cases r)
    case (Inr u)
    with "2.prems" sr p1 show ?thesis by auto
  next
    case (Inl err)
    with "2.prems" sr have
      "handleSyncError h err True e es (fst (logger LError (''Initial sync failed '' @ show_error err) w1))
         = Some w'" by simp
    from "2.IH"[OF sr[symmetric] Inl this] p1 show ?thesis by (simp add: logger_def)
  qed
next
  case (3 h error isFirstTime e es w)
  let ?modal = "ErrorMessage (''Failed to sync AI rules: '' @ message error) True
                  [''Retry'', ''Work with local copy'']"
  let ?v = "fst (show_ui ?modal w)"
  have pv: "prefix (shown w) (shown ?v)" by (simp add: show_ui_def)
  consider (later) "\<not> isFirstTime"
    | (retry) "isFirstTime" "answer e = Some ''Retry''"
    | (local) "isFirstTime" "answer e \<noteq> Some ''Retry''" "answer e = Some ''Work with local copy''"
    | (dismiss) "isFirstTime" "answer e \<noteq> Some ''Retry''" "answer e \<noteq> Some ''Work with local copy''"
    by blast
  then show ?case
  proof cases
    case later
    with "3.prems" show ?thesis by (auto simp: show_ui_def)
  next
    case retry
    with "3.prems" have "performInitialSync h es ?v = Some v'" by simp
    from "3.IH"[OF retry this] pv show ?thesis by (rule prefix_order.trans[rotated])
  next
    case local
    with "3.prems" have v': "v' = useLocalCopy e h (ret ())
        ''No rules available; working without rules''
        ''No rules available; working without rules'' ?v" by simp
    from quiet_useLocalCopy[OF quiet_ret] obtain xs where
      "shown v' = shown ?v @ xs" unfolding v' by blast
    with pv show ?thesis by (auto simp: prefix_def)
  next
    case dismiss
    with "3.prems" show ?thesis by (auto simp: show_ui_def)
  qed
qed

lemma first_failure_shows_modal:
  assumes "handleSyncError h error True e es v = Some v'"
  shows "prefix (shown v @ [first_failure_modal error]) (shown v')"
proof -
  let ?v = "fst (show_ui (first_failure_modal error) v)"
  have sv: "shown ?v = shown v @ [first_failure_modal error]" by (simp add: show_ui_def)
  consider (retry) "answer e = Some ''Retry''"
    | (local) "answer e \<noteq> Some ''Retry''" "answer e = Some ''Work with local copy''"
    | (dismiss) "answer e \<noteq> Some ''Retry''" "answer e \<noteq> Some ''Work with local copy''"
    by blast
  then show ?thesis
  proof cases
    case retry
    with assms have "performInitialSync h es ?v = Some v'"
      by (simp add: first_failure_modal_def)
    from chain_grows(1)[OF this] sv show ?thesis by simp
  next
    case local
    with assms have v': "v' = useLocalCopy e h (ret ())
        ''No rules available; working without rules''
        ''No rules available; working without rules'' ?v"
      by (simp add: first_failure_modal_def)
    from quiet_useLocalCopy[OF quiet_ret] obtain xs where
      "shown v' = shown ?v @ xs" unfolding v' by blast
    with sv show ?thesis by (auto simp: prefix_def)
  next
    case dismiss
    with assms have "v' = ?v" by (simp add: first_failure_modal_def)
    with sv show ?thesis by simp
  qed
qed

lemma not_modal_filter:
  "list_all (\<lambda>u. \<not> is_modal u) xs \<Longrightarrow> filter is_modal (ys @ xs) = filter is_modal ys"
  by (simp add: filter_empty_conv list_all_iff)

lemma syncRules_no_modal:
  "filter is_modal (shown (fst (syncRules e h w))) = filter is_modal (shown w)"
  using quietD[OF quiet_syncRules, of e h w] by (auto simp: filter_empty_conv list_all_iff)

section \<open>The first attempt\<close>

lemma getConfig_log_lines [simp]: "getConfig (log_lines ls w) = getConfig w"
  by (rule getConfig_cong) (simp add: log_lines_def)

lemma isConfigured_log_lines [simp]: "isConfigured (log_lines ls w) = isConfigured w"
  by (simp add: isConfigured_def)

lemma getConfig_logs: "getConfig (w\<lparr>logs := l\<rparr>) = getConfig w"
  by (rule getConfig_cong) simp

lemma isConfigured_logs: "isConfigured (w\<lparr>logs := l\<rparr>) = isConfigured w"
  by (simp add: isConfigured_def getConfig_logs)

lemma log_lines_log_lines [simp]: "log_lines ls (log_lines ks w) = log_lines (ks @ ls) w"
  by (simp add: log_lines_def)

lemma offerReconfiguration_shown:
  "\<exists>xs. shown (offerReconfiguration e h msg v)
          = shown v @ WarningMessage (''Failed to access AI rules repository: '' @ msg)
                        [''Open Settings'', ''Work with Local Copy''] # xs
        \<and> list_all (\<lambda>u. \<not> is_modal u) xs"
proof -
  let ?u = "WarningMessage (''Failed to access AI rules repository: '' @ msg)
              [''Open Settings'', ''Work with Local Copy'']"
  let ?v = "fst (show_ui ?u v)"
  have sv: "shown ?v = shown v @ [?u]" by (simp add: show_ui_def)
  consider (settings) "answer e = Some ''Open Settings''"
    | (local) "answer e \<noteq> Some ''Open Settings''" "answer e = Some ''Work with Local Copy''"
    | (dismiss) "answer e \<noteq> Some ''Open Settings''" "answer e \<noteq> Some ''Work with Local Copy''"
    by blast
  then show ?thesis
  proof cases
    case settings
    then show ?thesis
      by (simp add: offerReconfiguration_def seq_def bind_def show_ui_def)
  next
    case local
    have "quiet (show_ui (InformationMessage
        ''Using existing cached AI rules. You can reconfigure the repository later.'' []))"
      by (rule quiet_show_ui) simp
    from quiet_useLocalCopy[OF this] obtain xs where
      "shown (useLocalCopy e h
         (show_ui (InformationMessage
            ''Using existing cached AI rules. You can reconfigure the repository later.'' []))
         ''No cached rules available; working without rules. You can reconfigure the repository later.''
         ''No rules available; working without rules. You can reconfigure the repository later.''
         ?v) = shown ?v @ xs" "list_all (\<lambda>u. \<not> is_modal u) xs"
      by blast
    with local sv show ?thesis by (simp add: offerReconfiguration_def)
  next
    case dismiss
    with sv show ?thesis by (simp add: offerReconfiguration_def)
  qed
qed

section \<open>Which attempts show the modal dialog\<close>






section \<open>The mirror when no call fails\<close>







section \<open>Trees without the order of their entries\<close>

lemma kind_at_Nil [simp]: "kind_at [] n = Some (shape n)"
  by (simp add: kind_at_def)

lemma kind_at_File [simp]: "kind_at (k # p) (File c) = None"
  by (simp add: kind_at_def)

lemma kind_at_Dir [simp]:
  "kind_at (k # p) (Dir es) = (case map_of es k of None \<Rightarrow> None | Some c \<Rightarrow> kind_at p c)"
  by (simp add: kind_at_def split: option.splits)



lemma over_simps [simp]: "over None b = b" "over (Some x) b = Some x" "over a None = a"
  by (simp_all add: over_def split: option.splits)

lemma over_over [simp]: "over a (over a b) = over a b"
  by (simp add: over_def split: option.splits)







section \<open>The copy phase over what the destination holds\<close>




lemma team_part_empty [simp]: "team_part sub {} r = None"
  by (cases r) (simp_all add: team_part_def)









section \<open>An attempt that fails before the mirror\<close>

lemma preserves_vs_logger: "preserves vs (logger l m)"
  by (simp add: preserves_def logger_def)

lemma preserves_vs_fs:
  "preserves vs (fs_rm flt p)" "preserves vs (fs_mkdir flt p)"
  "preserves vs (fs_readdir flt p)" "preserves vs (fs_stat p)"
  "preserves vs (fs_cp flt p q)" "preserves vs (checkout r p)"
  by (auto simp: preserves_def fs_rm_def fs_mkdir_def fs_readdir_def fs_stat_def fs_cp_def
      checkout_def split: option.splits node.splits prod.splits sum.splits)

lemma preserves_vs_ensureRepository: "preserves vs (ensureRepository e h config)"
  unfolding ensureRepository_def acquireLock_def releaseLock_def repositoryExists_def
    cloneRepository_def fetchRepository_def
  by (intro preserves_combinators preserves_vs_logger preserves_vs_fs)

lemma setBranchDefault_fails:
  assumes "snd (setBranchDefault e b v) = Inl err"
  shows "setBranchDefault e b v = (v, Inl err)"
    and "vs x = vs v \<Longrightarrow> snd (setBranchDefault e b x) = Inl err"
  using assms
  by (auto simp: setBranchDefault_def seq_def bind_def logger_def ret_def
      split: if_splits option.splits)

lemma syncRules_before_mirror:
  assumes "\<not> isDisposed w" "isConfigured w" "validateConfig h (getConfig w) = []"
    and ens: "ensureRepository e h (getConfig w)
                (log_lines [(LInfo, ''Syncing rules from '' @ repoUrl (getConfig w))] w) = (v, r)"
    and bad: "r = Inl err
              \<or> (\<exists>repoPath b. r = Inr (repoPath, Some b) \<and> b \<noteq> []
                    \<and> snd (setBranchDefault e b v) = Inl err)"
  shows "syncRules e h w = (log_lines [(LError, ''Sync failed '' @ show_error err)] v, Inl err)"
    and "shown v = shown w"
    and "apart (getRepositoryPath h (getConfig w)) q \<Longrightarrow> lookup q (files v) = lookup q (files w)"
proof -
  let ?w0 = "log_lines [(LInfo, ''Syncing rules from '' @ repoUrl (getConfig w))] w"
  have w0: "fst (logger LInfo (''Syncing rules from '' @ repoUrl (getConfig w)) w) = ?w0"
    by (simp add: logger_def log_lines_def)
  show "shown v = shown w"
    using preservesD[OF preserves_shown_ensureRepository, of e h "getConfig w" ?w0] ens
    by (simp add: log_lines_def)
  show "lookup q (files v) = lookup q (files w)"
    if "apart (getRepositoryPath h (getConfig w)) q"
    using preservesD[OF preserves_lookup_ensureRepository[OF that], of e ?w0] ens
    by (simp add: log_lines_def)
  from bad show "syncRules e h w
      = (log_lines [(LError, ''Sync failed '' @ show_error err)] v, Inl err)"
  proof
    assume "r = Inl err"
    with assms(1,2,3) ens show ?thesis
      by (simp add: syncRules_def try_catch_def seq_def bind_def logger_def throw_def
          log_lines_def)
  next
    assume "\<exists>repoPath b. r = Inr (repoPath, Some b) \<and> b \<noteq> []
        \<and> snd (setBranchDefault e b v) = Inl err"
    then obtain repoPath b where
      b: "r = Inr (repoPath, Some b)" "b \<noteq> []" "snd (setBranchDefault e b v) = Inl err"
      by blast
    from setBranchDefault_fails(1)[OF b(3)] assms(1,2,3) ens b(1,2) show ?thesis
      by (simp add: syncRules_def try_catch_def seq_def bind_def logger_def throw_def
          log_lines_def)
  qed
qed

lemma ensureRepository_same:
  assumes "files x = files w" "vs x = vs w"
    and "ensureRepository e h config w = (v, r)"
  shows "\<exists>v'. ensureRepository e h config x = (v', r) \<and> vs v' = vs v"
proof -
  obtain v' r' where x: "ensureRepository e h config x = (v', r')"
    by (cases "ensureRepository e h config x")
  from tree_onlyD[OF tree_only_ensureRepository assms(1), of e h config] assms(3) x
  have "r' = r" by simp
  moreover have "vs v' = vs x" "vs v = vs w"
    using preservesD[OF preserves_vs_ensureRepository, of e h config x]
      preservesD[OF preserves_vs_ensureRepository, of e h config w] x assms(3) by simp_all
  ultimately show ?thesis using x assms(2) by simp
qed

section \<open>The definitions of the scenario\<close>

lemmas ex_defs = ex_world_def ex_files_def ex_repo_def ex_stale_def ex_config_def ex_vs_def
  ex_host_def no_faults_def rm_denied_def rm_partly_def ex_world_dotdot_def ex_env_def ex_offline_def
  ex_disk_full_def ex_locked_def ex_unreachable_def ex_fresh_def ex_locked_local_def
  ex_lock_error_def ex_locked_retry_def ex_clone_error_def ex_disk_full_error_def ex_url_changed_def ex_config_two_def ex_synced_nobranch_def ex_readonly_def ex_readonly_error_def ex_files_deep_def ex_world_deep_def ex_config_deep_def

section \<open>The claims\<close>

subsection \<open>C1: what a successful mirror leaves in the destination\<close>

text \<open>
  Claim C1, as amended. Take a source directory with the listing \<open>es\<close> (a well-formed
  tree), a destination that lies apart from it, and team names that are single path
  segments. After a successful run of \<^verbatim>\<open>syncFiles\<close> in which the removal of the old
  destination did not fail, the destination is a directory whose listing is exactly the
  mirror of the source: for each non-hidden source directory whose name starts with
  \<open>team\<close> a directory holding precisely the selected teams that are directories under it,
  each with its full subtree; for every other non-hidden source directory its full
  subtree; and nothing for hidden entries, for files, or for any other name.
\<close>

theorem mirror_is_exact:
  assumes "syncFiles flt repoPath config w = (w', Inr u)"
    and "flt (Rm (rulesFolderPath config)) = None"
    and "\<forall>t\<in>set (teamNames config). plain_name t"
    and "apart repoPath (rulesFolderPath config)"
    and "lookup repoPath (files w) = Some (Dir es)"
    and "wf_node (Dir es)"
  shows "\<exists>ds. lookup (rulesFolderPath config) (files w') = Some (Dir ds)
            \<and> mirror_of es (teamNames config) ds"
proof -
  have "lookup (rulesFolderPath config) (files w')
          = Some (Dir (foldl (entry_step (teamNames config)) [] es))"
    using syncFiles_mirror[OF assms(1) refl assms(3,4,2,5,6)] by simp
  moreover have "mirror_of es (teamNames config) (foldl (entry_step (teamNames config)) [] es)"
    using assms(6) by (intro mirror_of_fold) simp
  ultimately show ?thesis by blast
qed

theorem mirror_is_exact_witness:
  "\<exists>ds. lookup [''ws'', ''rules'']
           (files (fst (syncFiles no_faults [''cache'', ''Org-rules''] ex_config ex_world)))
         = Some (Dir ds)
       \<and> mirror_of (entries ex_repo) [''cloud-infra''] ds"
proof -
  have "snd (syncFiles no_faults [''cache'', ''Org-rules''] ex_config ex_world) = Inr ()"
    by code_simp
  then have run: "syncFiles no_faults [''cache'', ''Org-rules''] ex_config ex_world
      = (fst (syncFiles no_faults [''cache'', ''Org-rules''] ex_config ex_world), Inr ())"
    by (simp add: prod_eq_iff)
  have "\<exists>ds. lookup (rulesFolderPath ex_config)
           (files (fst (syncFiles no_faults [''cache'', ''Org-rules''] ex_config ex_world)))
         = Some (Dir ds)
       \<and> mirror_of (entries ex_repo) (teamNames ex_config) ds"
    by (rule mirror_is_exact[OF run])
       (simp_all add: ex_defs apart_def plain_name_def)
  then show ?thesis by (simp add: ex_config_def)
qed

text \<open>
  The claim as stated fails in two ways. When the removal of \<^verbatim>\<open>/ws/rules\<close> is refused, the run
  succeeds and the team directory of the destination still holds \<^verbatim>\<open>blue-team\<close>, which is not
  selected. And with the team name \<open>..\<close> (which \<^verbatim>\<open>getConfig\<close> lets through) the whole
  repository is copied: the destination receives the hidden \<^verbatim>\<open>.git\<close> and the top-level file.
\<close>

theorem mirror_is_exact_counterexample:
  "snd (syncFiles rm_denied [''cache'', ''Org-rules''] ex_config ex_world) = Inr ()
   \<and> lookup [''ws'', ''rules'', ''team'', ''blue-team'']
        (files (fst (syncFiles rm_denied [''cache'', ''Org-rules''] ex_config ex_world)))
       = Some (Dir [(''old.mdc'', File ''old'')])
   \<and> teamNames (getConfig ex_world_dotdot) = [''..'']
   \<and> snd (syncFiles no_faults [''cache'', ''Org-rules''] (getConfig ex_world_dotdot) ex_world_dotdot)
       = Inr ()
   \<and> lookup [''ws'', ''rules'', ''.git'']
        (files (fst (syncFiles no_faults [''cache'', ''Org-rules''] (getConfig ex_world_dotdot)
                       ex_world_dotdot)))
       = Some (Dir [(''HEAD'', File ''ref: refs/heads/main'')])
   \<and> lookup [''ws'', ''rules'', ''README.md'']
        (files (fst (syncFiles no_faults [''cache'', ''Org-rules''] (getConfig ex_world_dotdot)
                       ex_world_dotdot)))
       = Some (File ''readme'')"
  by code_simp

subsection \<open>C2: nothing of an earlier sync survives\<close>

text \<open>
  Claim C2, as amended. Whatever the destination held before, a successful run of
  \<^verbatim>\<open>syncFiles\<close> in which the removal of the old destination did not fail ends in exactly the
  world in which the same run ends when the destination is absent at the start: nothing
  that was in the destination before the run is left, unless this run copied it there.
\<close>

theorem stale_content_never_survives:
  assumes "syncFiles flt repoPath config w = (w', Inr u)"
    and "flt (Rm (rulesFolderPath config)) = None"
    and "rulesFolderPath config \<noteq> []"
  shows "syncFiles flt repoPath config (w\<lparr>files := del (rulesFolderPath config) (files w)\<rparr>)
           = (w', Inr u)"
proof -
  have nb: "\<not> blocked (rulesFolderPath config) (files w)"
    using syncFiles_blocked[of config w flt repoPath u] assms(1) by auto
  then have nb': "\<not> blocked (rulesFolderPath config)
      (files (w\<lparr>files := del (rulesFolderPath config) (files w)\<rparr>))"
    by (simp add: blocked_del_same)
  have "syncFiles flt repoPath config (w\<lparr>files := del (rulesFolderPath config) (files w)\<rparr>)
      = syncFiles flt repoPath config w"
    unfolding syncFiles_after_rm[where flt = flt and config = config and w = w
        and repoPath = repoPath, OF assms(2,3) nb]
      syncFiles_after_rm[where flt = flt and config = config
        and w = "w\<lparr>files := del (rulesFolderPath config) (files w)\<rparr>"
        and repoPath = repoPath, OF assms(2,3) nb']
    by (simp add: del_del)
  with assms(1) show ?thesis by simp
qed

theorem stale_content_never_survives_witness:
  "syncFiles no_faults [''cache'', ''Org-rules''] ex_config
     (ex_world\<lparr>files := del [''ws'', ''rules''] ex_files\<rparr>)
   = (fst (syncFiles no_faults [''cache'', ''Org-rules''] ex_config ex_world), Inr ())
   \<and> lookup [''ws'', ''rules'', ''team'', ''blue-team'', ''old.mdc''] ex_files = Some (File ''old'')"
proof -
  have "snd (syncFiles no_faults [''cache'', ''Org-rules''] ex_config ex_world) = Inr ()"
    by code_simp
  then have run: "syncFiles no_faults [''cache'', ''Org-rules''] ex_config ex_world
      = (fst (syncFiles no_faults [''cache'', ''Org-rules''] ex_config ex_world), Inr ())"
    by (simp add: prod_eq_iff)
  have "syncFiles no_faults [''cache'', ''Org-rules''] ex_config
          (ex_world\<lparr>files := del (rulesFolderPath ex_config) (files ex_world)\<rparr>)
        = (fst (syncFiles no_faults [''cache'', ''Org-rules''] ex_config ex_world), Inr ())"
    by (rule stale_content_never_survives[OF run]) (simp_all add: ex_defs)
  moreover have "lookup [''ws'', ''rules'', ''team'', ''blue-team'', ''old.mdc''] ex_files
      = Some (File ''old'')"
    by (simp add: ex_defs)
  ultimately show ?thesis by (simp add: ex_config_def ex_world_def)
qed

text \<open>
  The claim as stated fails: the removal of \<^verbatim>\<open>/ws/rules\<close> is refused, the run succeeds, and the
  file \<^verbatim>\<open>team/blue-team/old.mdc\<close> of the earlier sync, which the source does not have, is
  still there.
\<close>

theorem stale_content_counterexample:
  "lookup [''cache'', ''Org-rules'', ''team'', ''blue-team'', ''old.mdc''] (files ex_world) = None
   \<and> snd (syncFiles rm_denied [''cache'', ''Org-rules''] ex_config ex_world) = Inr ()
   \<and> lookup [''ws'', ''rules'', ''team'', ''blue-team'', ''old.mdc'']
        (files (fst (syncFiles rm_denied [''cache'', ''Org-rules''] ex_config ex_world)))
       = Some (File ''old'')"
  by code_simp

subsection \<open>C9: mirroring twice\<close>




subsection \<open>C3: a failed attempt in the steady state\<close>




subsection \<open>C4: which attempts show the blocking dialog\<close>




subsection \<open>C5: a failed removal of the destination\<close>




subsection \<open>C6: the treatment of a first failure and the kind of error\<close>

text \<open>
  Claim C6, as amended. When the first attempt of the session (the initial setup, with a
  valid configuration) fails, the treatment depends on the message of the error: a message
  that contains one of "Repository not found", "Could not read from remote repository",
  "Authentication failed" or "Git clone failed" gets the warning that offers to reconfigure
  and does not block, and no modal dialog is shown; every other failure gets the blocking
  modal. An attempt started by the timer treats every error alike: one warning that does
  not block.
\<close>

theorem first_failure_depends_on_message:
  assumes "isConfigured w" "validateConfig h (getConfig w) = []"
    and "syncRules e h
           (log_lines [(LInfo, ''Checking configuration...''),
                       (LInfo, ''Configuration valid, starting initial sync...'')] w)
         = (w1, Inl error)"
  shows "(if isRepositoryAccessError (message error)
          then \<exists>w'. performInitialSetup h (e # es) w = Some w'
                 \<and> prefix (shown w1
                            @ [WarningMessage
                                 (''Failed to access AI rules repository: '' @ message error)
                                 [''Open Settings'', ''Work with Local Copy'']])
                     (shown w')
                 \<and> filter is_modal (shown w') = filter is_modal (shown w)
          else \<forall>w'. performInitialSetup h (e # es) w = Some w'
                 \<longrightarrow> prefix (shown w1 @ [first_failure_modal error]) (shown w'))
       \<and> (\<forall>v v1 err. syncRules e h v = (v1, Inl err)
            \<longrightarrow> timerTick h e v
                = Some (v1\<lparr>shown := shown v1
                         @ [WarningMessage (''Failed to sync rules: '' @ message err) []]\<rparr>))"
proof (intro conjI allI impI)
  let ?w0 = "log_lines [(LInfo, ''Checking configuration...''),
                        (LInfo, ''Configuration valid, starting initial sync...'')] w"
  have m1: "filter is_modal (shown w1) = filter is_modal (shown w)"
    using syncRules_no_modal[of e h "?w0"] assms(3) by simp
  have run: "performInitialSetup h (e # es) w =
      (if isRepositoryAccessError (message error) then
         Some (offerReconfiguration e h (message error)
                 (fst (seq (logger LError (''Initial setup failed '' @ show_error error))
                         (logger LWarn ''Repository access failed, offering reconfiguration'')
                         w1)))
       else
         handleSyncError h error True e es
           (fst (logger LError (''Initial setup failed '' @ show_error error) w1)))"
    using assms(1,2) assms(3)[unfolded log_lines_def]
    by (simp add: performInitialSetup_def seq_def bind_def logger_def ret_def
        getConfig_logs isConfigured_logs)
  show "if isRepositoryAccessError (message error)
        then \<exists>w'. performInitialSetup h (e # es) w = Some w'
               \<and> prefix (shown w1
                          @ [WarningMessage
                               (''Failed to access AI rules repository: '' @ message error)
                               [''Open Settings'', ''Work with Local Copy'']])
                   (shown w')
               \<and> filter is_modal (shown w') = filter is_modal (shown w)
        else \<forall>w'. performInitialSetup h (e # es) w = Some w'
               \<longrightarrow> prefix (shown w1 @ [first_failure_modal error]) (shown w')"
  proof (cases "isRepositoryAccessError (message error)")
    case True
    let ?v = "fst (seq (logger LError (''Initial setup failed '' @ show_error error))
                     (logger LWarn ''Repository access failed, offering reconfiguration'') w1)"
    have sv: "shown ?v = shown w1" by (simp add: seq_def bind_def logger_def)
    from offerReconfiguration_shown[of e h "message error" ?v] obtain xs where
      xs: "shown (offerReconfiguration e h (message error) ?v)
          = shown ?v @ WarningMessage (''Failed to access AI rules repository: '' @ message error)
                        [''Open Settings'', ''Work with Local Copy''] # xs"
        "list_all (\<lambda>u. \<not> is_modal u) xs" by blast
    from xs(2) have "filter is_modal xs = []" by (simp add: filter_empty_conv list_all_iff)
    with True xs(1) sv m1 show ?thesis
      unfolding run by (simp add: prefix_def)
  next
    case False
    have "prefix (shown w1 @ [first_failure_modal error]) (shown w')"
      if "performInitialSetup h (e # es) w = Some w'" for w'
    proof -
      let ?v = "fst (logger LError (''Initial setup failed '' @ show_error error) w1)"
      from that False have "handleSyncError h error True e es ?v = Some w'"
        unfolding run by simp
      from first_failure_shows_modal[OF this] show ?thesis by (simp add: logger_def)
    qed
    with False show ?thesis by simp
  qed
next
  fix v v1 err assume "syncRules e h v = (v1, Inl err)"
  then show "timerTick h e v
      = Some (v1\<lparr>shown := shown v1 @ [WarningMessage (''Failed to sync rules: '' @ message err) []]\<rparr>)"
    by (simp add: timerTick_def show_ui_def)
qed

text \<open>
  The theorem on the first run with an empty cache: once the clone fails, once the lock is
  held; and the timer with the clone failing.
\<close>

theorem first_failure_depends_on_message_witness:
  "(\<exists>w'. performInitialSetup ex_host [ex_unreachable] ex_fresh = Some w'
        \<and> prefix [WarningMessage
                     ''Failed to access AI rules repository: Git clone failed: fatal: unable to access the remote: Could not resolve host''
                     [''Open Settings'', ''Work with Local Copy'']]
            (shown w')
        \<and> filter is_modal (shown w') = [])
   \<and> (\<exists>w'. performInitialSetup ex_host [ex_locked] ex_fresh = Some w'
        \<and> prefix [first_failure_modal ex_lock_error] (shown w'))
   \<and> (\<exists>w'. timerTick ex_host ex_unreachable ex_fresh = Some w'
        \<and> shown w'
          = [WarningMessage
               ''Failed to sync rules: Git clone failed: fatal: unable to access the remote: Could not resolve host''
               []])"
proof -
  let ?w0 = "log_lines [(LInfo, ''Checking configuration...''),
                        (LInfo, ''Configuration valid, starting initial sync...'')] ex_fresh"
  have c: "isConfigured ex_fresh" "validateConfig ex_host (getConfig ex_fresh) = []"
    by code_simp+
  have "snd (syncRules ex_unreachable ex_host ?w0) = Inl ex_clone_error" by code_simp
  then have u: "syncRules ex_unreachable ex_host ?w0
      = (fst (syncRules ex_unreachable ex_host ?w0), Inl ex_clone_error)"
    by (simp add: prod_eq_iff)
  have "snd (syncRules ex_locked ex_host ?w0) = Inl ex_lock_error" by code_simp
  then have l: "syncRules ex_locked ex_host ?w0
      = (fst (syncRules ex_locked ex_host ?w0), Inl ex_lock_error)"
    by (simp add: prod_eq_iff)
  have "snd (syncRules ex_unreachable ex_host ex_fresh) = Inl ex_clone_error" by code_simp
  then have t: "syncRules ex_unreachable ex_host ex_fresh
      = (fst (syncRules ex_unreachable ex_host ex_fresh), Inl ex_clone_error)"
    by (simp add: prod_eq_iff)
  have n: "shown (fst (syncRules ex_unreachable ex_host ?w0)) = []"
    "shown (fst (syncRules ex_locked ex_host ?w0)) = []"
    "shown (fst (syncRules ex_unreachable ex_host ex_fresh)) = []"
    "shown ex_fresh = []" by code_simp+
  have k: "isRepositoryAccessError (message ex_clone_error)"
    "\<not> isRepositoryAccessError (message ex_lock_error)" by code_simp+
  have m: "message ex_clone_error
      = ''Git clone failed: fatal: unable to access the remote: Could not resolve host''"
    by code_simp
  have "performInitialSetup ex_host [ex_locked] ex_fresh \<noteq> None" by code_simp
  then obtain w2 where w2: "performInitialSetup ex_host [ex_locked] ex_fresh = Some w2" by blast
  from first_failure_depends_on_message[OF c u, of "[]"] k(1) n(1,3,4) t m
  have 1: "\<exists>w'. performInitialSetup ex_host [ex_unreachable] ex_fresh = Some w'
        \<and> prefix [WarningMessage
                     ''Failed to access AI rules repository: Git clone failed: fatal: unable to access the remote: Could not resolve host''
                     [''Open Settings'', ''Work with Local Copy'']]
            (shown w')
        \<and> filter is_modal (shown w') = []"
    and 3: "\<exists>w'. timerTick ex_host ex_unreachable ex_fresh = Some w'
        \<and> shown w'
          = [WarningMessage
               ''Failed to sync rules: Git clone failed: fatal: unable to access the remote: Could not resolve host''
               []]"
    by simp_all
  from first_failure_depends_on_message[OF c l, of "[]"] k(2) n(2) w2
  have 2: "prefix [first_failure_modal ex_lock_error] (shown w2)" by simp
  from 1 2 3 w2 show ?thesis by simp
qed

text \<open>
  The claim as stated fails: two first attempts that fail with different kinds of error are
  treated differently. When the remote is unreachable, the clone fails and a warning that
  does not block is shown; when the lock is held, the blocking modal is shown.
\<close>

theorem first_failure_treatment_counterexample:
  "map_option shown (performInitialSetup ex_host [ex_unreachable] ex_fresh)
     = Some [WarningMessage
               ''Failed to access AI rules repository: Git clone failed: fatal: unable to access the remote: Could not resolve host''
               [''Open Settings'', ''Work with Local Copy'']]
   \<and> map_option shown (performInitialSetup ex_host [ex_locked] ex_fresh)
     = Some [ErrorMessage
               ''Failed to sync AI rules: Failed to acquire lock: Lock file is already being held''
               True [''Retry'', ''Work with local copy'']]"
  by code_simp

subsection \<open>C7: working with the local copy\<close>

text \<open>
  Claim C7. When the user answers the modal of a first failure with "Work with local copy":
  if the directory of the cached repository exists, \<^verbatim>\<open>syncFiles\<close> is run on it, without any
  repository access, and the file tree afterwards is the one a direct run of \<^verbatim>\<open>syncFiles\<close> on
  that directory produces (when that run throws, the notice is shown as well); if the
  directory does not exist, nothing is mirrored, the file tree is as it was, and after the
  modal the only thing shown is the notice "No rules available; working without rules",
  which does not block. In both cases the handler returns normally.
\<close>

theorem work_with_local_copy:
  assumes "answer e = Some ''Work with local copy''"
    and "config = getConfig w" and "repoPath = getRepositoryPath h config"
    and "modal = ErrorMessage (''Failed to sync AI rules: '' @ message error) True
                   [''Retry'', ''Work with local copy'']"
    and "notice = WarningMessage ''No rules available; working without rules'' []"
  shows "\<exists>w'. handleSyncError h error True e es w = Some w'
           \<and> (if \<exists>x. lookup repoPath (files w) = Some (Dir x)
              then files w' = files (fst (syncFiles (fs_faults e) repoPath config w))
                 \<and> shown w' = shown w @ modal
                      # (if snd (syncFiles (fs_faults e) repoPath config w) = Inr () then []
                         else [notice])
              else files w' = files w \<and> shown w' = shown w @ [modal, notice])"
proof -
  let ?v = "fst (show_ui modal w)"
  let ?m = "syncFiles (fs_faults e) repoPath config"
  have "vs ?v = vs w" by (simp add: show_ui_def)
  then have "getConfig ?v = getConfig w" by (rule getConfig_cong)
  then have v: "files ?v = files w" "shown ?v = shown w @ [modal]" "getConfig ?v = config"
    using assms(2) by (simp_all add: show_ui_def)
  have h: "handleSyncError h error True e es w
      = Some (useLocalCopy e h (ret ()) ''No rules available; working without rules''
                ''No rules available; working without rules'' ?v)"
    using assms(1,4) by simp
  from tree_onlyD[OF tree_only_syncFiles v(1)]
  have t: "files (fst (?m ?v)) = files (fst (?m w))" "snd (?m ?v) = snd (?m w)" by auto
  have s: "shown (fst (?m ?v)) = shown w @ [modal]"
    using preservesD[OF preserves_shown_syncFiles, of "fs_faults e" repoPath config ?v] v(2)
    by simp
  obtain v1 r where mv: "?m ?v = (v1, r)" by (cases "?m ?v")
  with t s have v1: "files v1 = files (fst (?m w))" "r = snd (?m w)" "shown v1 = shown w @ [modal]"
    by simp_all
  show ?thesis
  proof (cases "\<exists>x. lookup repoPath (files w) = Some (Dir x)")
    case False
    then show ?thesis
      unfolding h useLocalCopy_ret using v assms(3,5) by simp
  next
    case True
    show ?thesis
    proof (cases "snd (?m w)")
      case (Inl err)
      with mv v1(2) have mv': "?m ?v = (v1, Inl err)" by simp
      show ?thesis
        unfolding h useLocalCopy_ret using True v assms(3,5) mv' v1(1,3) Inl by simp
    next
      case (Inr u)
      with mv v1(2) have mv': "?m ?v = (v1, Inr ())" by simp
      show ?thesis
        unfolding h useLocalCopy_ret using True v assms(3,5) mv' v1(1,3) Inr by simp
    qed
  qed
qed

theorem work_with_local_copy_witness:
  "(\<exists>w'. handleSyncError ex_host ex_lock_error True ex_locked_local [] ex_world = Some w'
       \<and> files w' = files (fst (syncFiles no_faults [''cache'', ''Org-rules''] ex_config ex_world))
       \<and> shown w' = [ErrorMessage
                        ''Failed to sync AI rules: Failed to acquire lock: Lock file is already being held''
                        True [''Retry'', ''Work with local copy'']])
   \<and> (\<exists>w'. handleSyncError ex_host ex_lock_error True ex_locked_local [] ex_fresh = Some w'
       \<and> files w' = files ex_fresh
       \<and> shown w' = [ErrorMessage
                        ''Failed to sync AI rules: Failed to acquire lock: Lock file is already being held''
                        True [''Retry'', ''Work with local copy''],
                      WarningMessage ''No rules available; working without rules'' []])"
proof -
  have a: "answer ex_locked_local = Some ''Work with local copy''" by code_simp
  have c: "getConfig ex_world = ex_config" "getConfig ex_fresh = ex_config" by code_simp+
  have p: "getRepositoryPath ex_host ex_config = [''cache'', ''Org-rules'']" by code_simp
  have f: "fs_faults ex_locked_local = no_faults"
    by (simp add: ex_locked_local_def ex_locked_def ex_env_def)
  have x: "lookup [''cache'', ''Org-rules''] (files ex_world) = Some ex_repo" by code_simp
  have y: "lookup [''cache'', ''Org-rules''] (files ex_fresh) = None" by code_simp
  have r: "snd (syncFiles no_faults [''cache'', ''Org-rules''] ex_config ex_world) = Inr ()"
    by code_simp
  have s: "shown ex_world = []" "shown ex_fresh = []" by code_simp+
  from work_with_local_copy[OF a c(1)[symmetric] p[symmetric] refl refl,
      of ex_lock_error "[]"]
  have 1: "\<exists>w'. handleSyncError ex_host ex_lock_error True ex_locked_local [] ex_world = Some w'
       \<and> files w' = files (fst (syncFiles no_faults [''cache'', ''Org-rules''] ex_config ex_world))
       \<and> shown w' = [ErrorMessage
                        ''Failed to sync AI rules: Failed to acquire lock: Lock file is already being held''
                        True [''Retry'', ''Work with local copy'']]"
    unfolding f x r s by (simp add: ex_repo_def ex_lock_error_def)
  from work_with_local_copy[OF a c(2)[symmetric] p[symmetric] refl refl,
      of ex_lock_error "[]"]
  have 2: "\<exists>w'. handleSyncError ex_host ex_lock_error True ex_locked_local [] ex_fresh = Some w'
       \<and> files w' = files ex_fresh
       \<and> shown w' = [ErrorMessage
                        ''Failed to sync AI rules: Failed to acquire lock: Lock file is already being held''
                        True [''Retry'', ''Work with local copy''],
                      WarningMessage ''No rules available; working without rules'' []]"
    unfolding f y s by (simp add: ex_lock_error_def)
  from 1 2 show ?thesis by blast
qed

subsection \<open>C8: a selected team without a folder\<close>



subsection \<open>C10: a fetch that fails while a clone is cached\<close>

text \<open>
  Claim C10. Let a clone be cached (its \<^verbatim>\<open>.git\<close> directory exists), let the lock be taken,
  and let the fetch fail. Then \<^verbatim>\<open>ensureRepository\<close> catches the failure, logs the warning
  "Using existing cached copy due to fetch failure" and returns the path of the cached
  repository with the file tree untouched; the attempt then ends as the mirror of the
  cached repository ends, shows nothing to the user, and when the mirror succeeds the
  attempt of the timer succeeds and the handler for failures is not reached.
\<close>

theorem fetch_failure_is_tolerated:
  assumes "\<not> isDisposed w" "isConfigured w" "validateConfig h (getConfig w) = []"
    and "config = getConfig w" "repoPath = getRepositoryPath h config"
    and "lookup (path_join repoPath ''.git'') (files w) = Some (Dir g)"
    and "fs_faults e (Mkdir (path_dirname repoPath)) = None" "lock_result e = None"
    and "revparse_head e = Inr c" "fetch_result e = Some m"
    and "revparse_abbrev e = Inr b" "update_setting e = None"
  shows "(\<exists>w1. ensureRepository e h config w
               = (w1, Inr (repoPath, if branch config = [] then Some (trim b) else None))
             \<and> files w1 = files w
             \<and> (LWarn, ''Using existing cached copy due to fetch failure'') \<in> set (logs w1))
       \<and> (\<exists>w2. syncRules e h w = (w2, snd (syncFiles (fs_faults e) repoPath config w))
             \<and> files w2 = files (fst (syncFiles (fs_faults e) repoPath config w))
             \<and> shown w2 = shown w
             \<and> (snd (syncFiles (fs_faults e) repoPath config w) = Inr ()
                  \<longrightarrow> timerTick h e w = Some w2))"
proof
  have git: "lookup (getRepositoryPath h config @ [''.git'']) (files w) = Some (Dir g)"
    using assms(5,6) by (simp add: path_join_plain plain_name_def)
  have mk: "fs_faults e (Mkdir (path_dirname (getRepositoryPath h config))) = None"
    using assms(5,7) by simp
  from ensureRepository_offline[OF git mk assms(8,9,10,11)] assms(5)
  show "\<exists>w1. ensureRepository e h config w
               = (w1, Inr (repoPath, if branch config = [] then Some (trim b) else None))
             \<and> files w1 = files w
             \<and> (LWarn, ''Using existing cached copy due to fetch failure'') \<in> set (logs w1)"
    by auto
  let ?w0 = "w\<lparr>logs := logs w @ [(LInfo, ''Syncing rules from '' @ repoUrl config)]\<rparr>"
  let ?ab = "if branch config = [] then Some (trim b) else None"
  let ?m = "syncFiles (fs_faults e) repoPath config"
  have git0: "lookup (getRepositoryPath h config @ [''.git'']) (files ?w0) = Some (Dir g)"
    using git by simp
  from ensureRepository_offline[OF git0 mk assms(8,9,10,11)] assms(5) obtain w1 where
    w1: "ensureRepository e h config ?w0 = (w1, Inr (repoPath, ?ab))"
      "files w1 = files w" "shown w1 = shown w"
    by auto
  have "\<exists>v1. (case ?ab of None \<Rightarrow> ret ()
                 | Some b' \<Rightarrow> if b' \<noteq> [] then setBranchDefault e b' else ret ()) w1
               = (v1, Inr ()) \<and> files v1 = files w \<and> shown v1 = shown w"
  proof (cases "branch config = [] \<and> trim b \<noteq> []")
    case True
    from setBranchDefault_ok[OF assms(12), of "trim b" w1] obtain v where
      "setBranchDefault e (trim b) w1 = (v, Inr ())" "files v = files w1" "shown v = shown w1"
      by blast
    with True w1(2,3) show ?thesis by (intro exI[of _ v]) simp
  next
    case False
    with w1(2,3) show ?thesis by (intro exI[of _ w1]) (auto simp: ret_def)
  qed
  then obtain v1 where v1:
    "(case ?ab of None \<Rightarrow> ret () | Some b' \<Rightarrow> if b' \<noteq> [] then setBranchDefault e b' else ret ()) w1
       = (v1, Inr ())" "files v1 = files w" "shown v1 = shown w"
    by blast
  from tree_onlyD[OF tree_only_syncFiles v1(2)]
  have t: "files (fst (?m v1)) = files (fst (?m w))" "snd (?m v1) = snd (?m w)" by auto
  have sh: "shown (fst (?m v1)) = shown w"
    using preservesD[OF preserves_shown_syncFiles, of "fs_faults e" repoPath config v1] v1(3)
    by simp
  obtain v2 where v2: "?m v1 = (v2, snd (?m w))" using t(2) by (cases "?m v1") auto
  with t sh have f2: "files v2 = files (fst (?m w))" "shown v2 = shown w" by simp_all
  show "\<exists>w2. syncRules e h w = (w2, snd (?m w))
             \<and> files w2 = files (fst (?m w))
             \<and> shown w2 = shown w
             \<and> (snd (?m w) = Inr () \<longrightarrow> timerTick h e w = Some w2)"
  proof (cases "snd (?m w)")
    case (Inr u)
    with v2 have v2': "?m v1 = (v2, Inr ())" by simp
    have "syncRules e h w
        = (v2\<lparr>logs := logs v2 @ [(LInfo, ''Rules sync completed successfully'')]\<rparr>, Inr ())"
      using assms(1,2,3) assms(4)[symmetric] w1(1) v1(1) v2'
      by (simp add: syncRules_def try_catch_def seq_def bind_def logger_def)
    with Inr f2 show ?thesis by (simp add: timerTick_def)
  next
    case (Inl err)
    with v2 have v2': "?m v1 = (v2, Inl err)" by simp
    have "syncRules e h w
        = (v2\<lparr>logs := logs v2 @ [(LError, ''Sync failed '' @ show_error err)]\<rparr>, Inl err)"
      using assms(1,2,3) assms(4)[symmetric] w1(1) v1(1) v2'
      by (simp add: syncRules_def try_catch_def seq_def bind_def logger_def throw_def)
    with Inl f2 show ?thesis by simp
  qed
qed

theorem fetch_failure_is_tolerated_witness:
  "(\<exists>w1. ensureRepository ex_offline ex_host ex_config ex_world
            = (w1, Inr ([''cache'', ''Org-rules''], None))
        \<and> files w1 = files ex_world
        \<and> (LWarn, ''Using existing cached copy due to fetch failure'') \<in> set (logs w1))
   \<and> (\<exists>w2. syncRules ex_offline ex_host ex_world = (w2, Inr ())
        \<and> lookup [''ws'', ''rules''] (files w2)
            = Some (Dir [(''general'', Dir [(''tone.mdc'', File ''tone'')]),
                         (''team'', Dir [(''cloud-infra'', Dir [(''general.mdc'', File ''cloud'')])]),
                         (''teams'', Dir [(''cloud-infra'', Dir [(''extra.mdc'', File ''cloud-extra'')])])])
        \<and> shown w2 = []
        \<and> timerTick ex_host ex_offline ex_world = Some w2)"
proof -
  have a: "\<not> isDisposed ex_world" "isConfigured ex_world"
    "validateConfig ex_host (getConfig ex_world) = []" by code_simp+
  have c: "ex_config = getConfig ex_world" by code_simp
  have p: "[''cache'', ''Org-rules''] = getRepositoryPath ex_host ex_config" by code_simp
  have g: "lookup (path_join [''cache'', ''Org-rules''] ''.git'') (files ex_world)
      = Some (Dir [(''HEAD'', File ''ref: refs/heads/main'')])" by code_simp
  have e: "fs_faults ex_offline (Mkdir (path_dirname [''cache'', ''Org-rules''])) = None"
    "lock_result ex_offline = None" "revparse_head ex_offline = Inr ''0123456789abcdef''"
    "fetch_result ex_offline = Some ''fatal: unable to access the remote: Could not resolve host''"
    "revparse_abbrev ex_offline = Inr ''main''" "update_setting ex_offline = None"
    by code_simp+
  have f: "fs_faults ex_offline = no_faults" by (simp add: ex_offline_def ex_env_def)
  have r: "snd (syncFiles no_faults [''cache'', ''Org-rules''] ex_config ex_world) = Inr ()"
    by code_simp
  have t: "lookup [''ws'', ''rules'']
        (files (fst (syncFiles no_faults [''cache'', ''Org-rules''] ex_config ex_world)))
      = Some (Dir [(''general'', Dir [(''tone.mdc'', File ''tone'')]),
                   (''team'', Dir [(''cloud-infra'', Dir [(''general.mdc'', File ''cloud'')])]),
                   (''teams'', Dir [(''cloud-infra'', Dir [(''extra.mdc'', File ''cloud-extra'')])])])"
    by code_simp
  have b: "branch ex_config = ''main''" by code_simp
  have s: "shown ex_world = []" by code_simp
  from fetch_failure_is_tolerated[OF a c p g e] show ?thesis
    unfolding f r b s using t by auto
qed

end
